theory Spec2Isabelle
  imports Main
begin

section \<open>Go strings, bytes and runes\<close>

text \<open>
  A Go \<^verbatim>\<open>string\<close> is a sequence of bytes; it is modelled as a \<^typ>\<open>string\<close>, whose
  characters are exactly the 256 byte values. A \<^verbatim>\<open>rune\<close> (int32) is modelled as a natural
  number: every rune the program handles comes out of the UTF-8 decoder or is an ASCII
  constant, so it is never negative. \<^verbatim>\<open>rune(s[i])\<close> is \<open>byte (s ! i)\<close>.
\<close>

type_synonym rune = nat

definition byte :: "char \<Rightarrow> nat" where
  "byte c = of_char c"

definition chr :: "nat \<Rightarrow> char" where
  "chr n = char_of n"

definition squote :: char where
  "squote = CHR 0x27"

definition bslash :: char where
  "bslash = CHR 0x5C"

definition colon :: char where
  "colon = CHR 0x3A"

subsection \<open>unicode/utf8 of the Go standard library\<close>

definition RuneError :: rune where
  "RuneError = 0xFFFD"

definition MaxRune :: rune where
  "MaxRune = 0x10FFFF"

text \<open>
  \<^verbatim>\<open>utf8.ValidRune\<close>: a code point that can be encoded, that is, one in range and not a
  surrogate half.
\<close>

definition ValidRune :: "rune \<Rightarrow> bool" where
  "ValidRune r = (r < 0xD800 \<or> (0xDFFF < r \<and> r \<le> MaxRune))"

text \<open>
  \<^verbatim>\<open>utf8.DecodeRuneInString\<close>, which is also what \<^verbatim>\<open>for _, c := range s\<close> and
  \<^verbatim>\<open>strings.IndexFunc\<close> use to take the next rune: it returns the rune and the number
  of bytes it occupies; a byte that starts no well-formed sequence is reported as
  \<open>RuneError\<close> of width 1. The lookup table \<^verbatim>\<open>first\<close> and \<^verbatim>\<open>acceptRanges\<close> of the
  library are written out as the byte ranges they hold; masking with \<^verbatim>\<open>0x1F\<close>, \<^verbatim>\<open>0x0F\<close>,
  \<^verbatim>\<open>0x07\<close>, \<^verbatim>\<open>0x3F\<close> is \<open>mod\<close> 32, 16, 8, 64, and a shift-and-or of disjoint bit fields
  is a multiplication and a sum.
\<close>

definition DecodeRuneInString :: "string \<Rightarrow> rune \<times> nat" where
  "DecodeRuneInString s =
    (let n = length s in
     if n < 1 then (RuneError, 0)
     else
       let s0 = byte (s ! 0) in
       if s0 < 0x80 then (s0, 1)
       else if s0 < 0xC2 \<or> 0xF4 < s0 then (RuneError, 1)
       else
         let sz = (if s0 < 0xE0 then 2 else if s0 < 0xF0 then 3 else 4 :: nat);
             lo = (if s0 = 0xE0 then 0xA0 else if s0 = 0xF0 then 0x90 else 0x80 :: nat);
             hi = (if s0 = 0xED then 0x9F else if s0 = 0xF4 then 0x8F else 0xBF :: nat)
         in
         if n < sz then (RuneError, 1)
         else
           let s1 = byte (s ! 1) in
           if s1 < lo \<or> hi < s1 then (RuneError, 1)
           else if sz \<le> 2 then ((s0 mod 32) * 64 + s1 mod 64, 2)
           else
             let s2 = byte (s ! 2) in
             if s2 < 0x80 \<or> 0xBF < s2 then (RuneError, 1)
             else if sz \<le> 3 then ((s0 mod 16) * 4096 + (s1 mod 64) * 64 + s2 mod 64, 3)
             else
               let s3 = byte (s ! 3) in
               if s3 < 0x80 \<or> 0xBF < s3 then (RuneError, 1)
               else ((s0 mod 8) * 262144 + (s1 mod 64) * 4096 + (s2 mod 64) * 64
                      + s3 mod 64, 4))"

text \<open>
  \<^verbatim>\<open>utf8.AppendRune\<close> (the bytes \<^verbatim>\<open>strings.Builder.WriteRune\<close> appends): one to four
  bytes; a surrogate half or a value above \<open>MaxRune\<close> is written as the three bytes of
  \<open>RuneError\<close>.
\<close>

definition EncodeRune :: "rune \<Rightarrow> string" where
  "EncodeRune r =
    (if r \<le> 0x7F then [chr r]
     else if r \<le> 0x7FF then [chr (0xC0 + r div 64), chr (0x80 + r mod 64)]
     else if r < 0xD800 \<or> (0xDFFF < r \<and> r \<le> 0xFFFF) then
       [chr (0xE0 + r div 4096), chr (0x80 + (r div 64) mod 64), chr (0x80 + r mod 64)]
     else if 0xFFFF < r \<and> r \<le> MaxRune then
       [chr (0xF0 + r div 262144), chr (0x80 + (r div 4096) mod 64),
        chr (0x80 + (r div 64) mod 64), chr (0x80 + r mod 64)]
     else [CHR 0xEF, CHR 0xBF, CHR 0xBD])"

definition WriteRune :: "string \<Rightarrow> rune \<Rightarrow> string" where
  "WriteRune b r = b @ EncodeRune r"

definition WriteString :: "string \<Rightarrow> string \<Rightarrow> string" where
  "WriteString b s = b @ s"

text \<open>The UTF-8 text of a sequence of code points.\<close>

definition utf8 :: "rune list \<Rightarrow> string" where
  "utf8 rs = concat (map EncodeRune rs)"

section \<open>The literal quoter\<close>

text \<open>
  \<^verbatim>\<open>quoteLiteral\<close>: the builder starts as \<^verbatim>\<open>E'\<close>; the \<^verbatim>\<open>range\<close> loop takes the runes of
  \<open>s\<close> one by one (\<open>quoteLoop\<close> is that loop, on the part of \<open>s\<close> still to be read, the
  builder and \<^verbatim>\<open>hasSlash\<close>); the closing quote is written, and the leading \<^verbatim>\<open>E\<close> is
  dropped again (\<^verbatim>\<open>s[1:]\<close>) unless a backslash was seen.
\<close>

lemma DecodeRuneInString_width: "s \<noteq> [] \<Longrightarrow> 0 < snd (DecodeRuneInString s)"
  by (simp add: DecodeRuneInString_def Let_def)

function quoteLoop :: "string \<Rightarrow> string \<times> bool \<Rightarrow> string \<times> bool" where
  "quoteLoop s (b, hasSlash) =
    (if s = [] then (b, hasSlash)
     else
       let (c, w) = DecodeRuneInString s in
       if c = byte bslash then quoteLoop (drop w s) (WriteString b [bslash, bslash], True)
       else if c = byte squote then quoteLoop (drop w s) (WriteString b [squote, squote], hasSlash)
       else quoteLoop (drop w s) (WriteRune b c, hasSlash))"
  by pat_completeness auto
termination
proof (relation "measure (\<lambda>(s, _). length s)")
  show "wf (measure (\<lambda>(s, _). length s))" by simp
next
  fix s :: string and b hasSlash x c w
  assume "s \<noteq> []" "x = DecodeRuneInString s" "(c, w) = x"
  then have "0 < w" using DecodeRuneInString_width [of s] by (metis snd_conv)
  then show "((drop w s, WriteString b [bslash, bslash], True), s, b, hasSlash)
      \<in> measure (\<lambda>(s, _). length s)" using \<open>s \<noteq> []\<close> by simp
next
  fix s :: string and b hasSlash x c w
  assume "s \<noteq> []" "x = DecodeRuneInString s" "(c, w) = x"
  then have "0 < w" using DecodeRuneInString_width [of s] by (metis snd_conv)
  then show "((drop w s, WriteString b [squote, squote], hasSlash), s, b, hasSlash)
      \<in> measure (\<lambda>(s, _). length s)" using \<open>s \<noteq> []\<close> by simp
next
  fix s :: string and b hasSlash x c w
  assume "s \<noteq> []" "x = DecodeRuneInString s" "(c, w) = x"
  then have "0 < w" using DecodeRuneInString_width [of s] by (metis snd_conv)
  then show "((drop w s, WriteRune b c, hasSlash), s, b, hasSlash)
      \<in> measure (\<lambda>(s, _). length s)" using \<open>s \<noteq> []\<close> by simp
qed

declare quoteLoop.simps [simp del]

definition quoteLiteral :: "string \<Rightarrow> string" where
  "quoteLiteral s =
    (let b0 = WriteRune (WriteRune [] (byte (CHR ''E''))) (byte squote);
         (b1, hasSlash) = quoteLoop s (b0, False);
         b2 = WriteRune b1 (byte squote)
     in if \<not> hasSlash then drop 1 b2 else b2)"

text \<open>
  What the quoter is specified to do with one code point: a quote and a backslash are
  doubled. \<open>doubled_byte\<close> is the same on a byte, and \<open>quoted\<close> puts a text between quotes.
\<close>

definition doubled_byte :: "char \<Rightarrow> string" where
  "doubled_byte c = (if c = squote \<or> c = bslash then [c, c] else [c])"

definition quoted :: "string \<Rightarrow> string" where
  "quoted s = squote # s @ [squote]"

definition doubled :: "rune \<Rightarrow> rune list" where
  "doubled r = (if r = byte squote \<or> r = byte bslash then [r, r] else [r])"

section \<open>Parameter values and the value encoder\<close>

text \<open>
  The values a \<^verbatim>\<open>Params\<close> map can hold (\<^verbatim>\<open>interface{}\<close>), by the dynamic types that
  \<^verbatim>\<open>toDbValue\<close> tells apart. A pointer is \<open>None\<close> when it is nil. A \<^verbatim>\<open>float64\<close>, a
  \<^verbatim>\<open>decimal.Decimal\<close> and a \<^verbatim>\<open>time.Time\<close> are not interpreted: each is used through one
  library call only, and the model carries the text that call returns
  (\<^verbatim>\<open>strconv.FormatFloat(v, 'g', -1, 64)\<close>, \<^verbatim>\<open>v.String()\<close>,
  \<^verbatim>\<open>v.Format(DateTimeTzFormat)\<close>).
\<close>

datatype float64 = Float64Text string

datatype decimal = DecimalText string

datatype time = TimeText string

fun FormatFloat :: "float64 \<Rightarrow> string" where
  "FormatFloat (Float64Text t) = t"

fun Decimal_String :: "decimal \<Rightarrow> string" where
  "Decimal_String (DecimalText t) = t"

fun Time_Format :: "time \<Rightarrow> string" where
  "Time_Format (TimeText t) = t"

text \<open>
  Values of every other dynamic type reach \<^verbatim>\<open>json.Marshal\<close>. What the encoder sees of
  them is the result of that call. encoding/json writes a nil pointer as \<^verbatim>\<open>null\<close>, whatever
  the type pointed to (a marshalling method is not called on a nil pointer). A nil slice
  is written as \<^verbatim>\<open>null\<close> only when its type has no \<^verbatim>\<open>MarshalJSON\<close> or \<^verbatim>\<open>MarshalText\<close>
  method of its own (\<open>NilSlice None\<close>); when the slice type has such a method with a value
  receiver, encoding/json calls it on the nil slice as well, and \<^verbatim>\<open>json.Marshal\<close> returns
  what comes of that call, \<open>NilSlice (Some r)\<close>: the error \<open>Inl msg\<close> or the JSON text
  \<open>Inr js\<close>. Any other value either has a JSON text or is rejected with an error
  (a channel, a function, a \<^verbatim>\<open>map[interface{}]interface{}\<close>). A \<^verbatim>\<open>[]byte\<close> is
  \<open>None\<close> when it is nil.
\<close>

datatype other =
    NilPointer
  | NilSlice "(string + string) option"
  | Marshalable string
  | Unmarshalable string

fun json_Marshal :: "other \<Rightarrow> string + string option" where
  "json_Marshal NilPointer = Inr (Some ''null'')"
| "json_Marshal (NilSlice None) = Inr (Some ''null'')"
| "json_Marshal (NilSlice (Some (Inl msg))) = Inl msg"
| "json_Marshal (NilSlice (Some (Inr js))) = Inr (Some js)"
| "json_Marshal (Marshalable js) = Inr (Some js)"
| "json_Marshal (Unmarshalable msg) = Inl msg"

datatype "value" =
    NilInterface
  | StringPtr "string option"
  | StringVal string
  | IntPtr "int option"
  | IntVal int
  | Float64Ptr "float64 option"
  | Float64Val float64
  | BoolPtr "bool option"
  | BoolVal bool
  | DecimalPtr "decimal option"
  | DecimalVal decimal
  | TimePtr "time option"
  | TimeVal time
  | CommaListParam "value list option"
  | OtherVal other

type_synonym Params = "string \<rightharpoonup> value"

datatype error =
    ErrNoRows
  | ParameterMissing string
  | MarshalError string
  | DriverError string
  | Wrapped error string Params

text \<open>\<^verbatim>\<open>strconv.Itoa\<close>, \<^verbatim>\<open>strconv.FormatBool\<close> and \<^verbatim>\<open>strings.Join\<close>.\<close>

function digits :: "nat \<Rightarrow> string" where
  "digits n = (if n < 10 then [chr (48 + n)] else digits (n div 10) @ [chr (48 + n mod 10)])"
  by pat_completeness auto
termination
  by (relation "measure id") auto

declare digits.simps [simp del]

definition Itoa :: "int \<Rightarrow> string" where
  "Itoa i = (if i < 0 then ''-'' @ digits (nat (- i)) else digits (nat i))"

definition FormatBool :: "bool \<Rightarrow> string" where
  "FormatBool b = (if b then ''true'' else ''false'')"

fun Join :: "string list \<Rightarrow> string \<Rightarrow> string" where
  "Join [] sep = []"
| "Join [x] sep = x"
| "Join (x # y # zs) sep = x @ sep @ Join (y # zs) sep"

text \<open>\<open>len\<close> and the elements of a slice that may be nil: a nil slice has none.\<close>

fun elems :: "'a list option \<Rightarrow> 'a list" where
  "elems None = []"
| "elems (Some xs) = xs"

text \<open>The termination measure of the encoder counts a pointer above what it points to.\<close>

fun is_pointer :: "value \<Rightarrow> nat" where
  "is_pointer (StringPtr _) = 1"
| "is_pointer (IntPtr _) = 1"
| "is_pointer (Float64Ptr _) = 1"
| "is_pointer (BoolPtr _) = 1"
| "is_pointer (DecimalPtr _) = 1"
| "is_pointer (TimePtr _) = 1"
| "is_pointer _ = 0"

lemma is_pointer_le: "is_pointer v \<le> 1"
  by (cases v) simp_all

lemma size_elems: "size_list f (elems l) \<le> size_option (size_list f) l"
  by (cases l) simp_all

text \<open>
  \<^verbatim>\<open>toDbValue\<close>. The cases stand in the order of the type switch; \<open>toDbValues\<close> is the
  loop over the elements of a \<^verbatim>\<open>CommaListParam\<close>, which returns at the first element that
  fails.
\<close>

function toDbValue :: "value \<Rightarrow> error + string"
  and toDbValues :: "value list \<Rightarrow> error + string list" where
  "toDbValue NilInterface = Inr ''NULL''"
| "toDbValue (StringPtr p) = (case p of None \<Rightarrow> Inr ''NULL'' | Some v \<Rightarrow> toDbValue (StringVal v))"
| "toDbValue (StringVal s) = Inr (quoteLiteral s)"
| "toDbValue (IntPtr p) = (case p of None \<Rightarrow> Inr ''NULL'' | Some v \<Rightarrow> toDbValue (IntVal v))"
| "toDbValue (IntVal i) = Inr (Itoa i)"
| "toDbValue (Float64Ptr p) = (case p of None \<Rightarrow> Inr ''NULL'' | Some v \<Rightarrow> toDbValue (Float64Val v))"
| "toDbValue (Float64Val f) = Inr (FormatFloat f)"
| "toDbValue (BoolPtr p) = (case p of None \<Rightarrow> Inr ''NULL'' | Some v \<Rightarrow> toDbValue (BoolVal v))"
| "toDbValue (BoolVal b) = Inr (FormatBool b)"
| "toDbValue (DecimalPtr p) = (case p of None \<Rightarrow> Inr ''NULL'' | Some v \<Rightarrow> toDbValue (DecimalVal v))"
| "toDbValue (DecimalVal d) = Inr (Decimal_String d)"
| "toDbValue (TimePtr p) = (case p of None \<Rightarrow> Inr ''NULL'' | Some v \<Rightarrow> toDbValue (TimeVal v))"
| "toDbValue (TimeVal t) = Inr (quoteLiteral (Time_Format t))"
| "toDbValue (CommaListParam l) =
     (case toDbValues (elems l) of
        Inl err \<Rightarrow> Inl err
      | Inr e \<Rightarrow> Inr (Join e '', ''))"
| "toDbValue (OtherVal v) =
     (case json_Marshal v of
        Inl msg \<Rightarrow> Inl (MarshalError msg)
      | Inr encoded \<Rightarrow>
          let asString = (case encoded of None \<Rightarrow> [] | Some bs \<Rightarrow> bs) in
          if encoded = None \<or> asString = ''null'' then Inr ''NULL''
          else Inr (quoteLiteral asString))"
| "toDbValues [] = Inr []"
| "toDbValues (v # vs) =
     (case toDbValue v of
        Inl err \<Rightarrow> Inl err
      | Inr t \<Rightarrow> (case toDbValues vs of Inl err \<Rightarrow> Inl err | Inr ts \<Rightarrow> Inr (t # ts)))"
  by pat_completeness auto

termination
proof (relation "measure (\<lambda>x. case x of
        Inl v \<Rightarrow> 2 * size v + is_pointer v
      | Inr vs \<Rightarrow> 2 * size_list size vs + 1)", goal_cases)
  case (8 l)
  then show ?case using size_elems [of size l] by simp
next
  case (9 v vs)
  then show ?case using is_pointer_le [of v] by simp
qed auto


section \<open>The placeholder scanner\<close>

subsection \<open>strings.IndexByte, strings.Index, strings.IndexFunc and strings.IndexRune\<close>

text \<open>An index is \<open>None\<close> where the library returns \<^verbatim>\<open>-1\<close>.\<close>

fun IndexByte :: "string \<Rightarrow> char \<Rightarrow> nat option" where
  "IndexByte [] c = None"
| "IndexByte (x # xs) c = (if x = c then Some 0 else map_option Suc (IndexByte xs c))"

fun Index :: "string \<Rightarrow> string \<Rightarrow> nat option" where
  "Index [] substr = (if substr = [] then Some 0 else None)"
| "Index (x # xs) substr =
     (if take (length substr) (x # xs) = substr then Some 0
      else map_option Suc (Index xs substr))"

definition Contains :: "string \<Rightarrow> string \<Rightarrow> bool" where
  "Contains s substr = (Index s substr \<noteq> None)"

function IndexFunc :: "string \<Rightarrow> (rune \<Rightarrow> bool) \<Rightarrow> nat option" where
  "IndexFunc s f =
    (if s = [] then None
     else
       let (r, w) = DecodeRuneInString s in
       if f r then Some 0 else map_option (\<lambda>i. i + w) (IndexFunc (drop w s) f))"
  by pat_completeness auto
termination
proof (relation "measure (\<lambda>(s, _). length s)")
  show "wf (measure (\<lambda>(s, _). length s))" by simp
next
  fix s :: string and f :: "rune \<Rightarrow> bool" and x r w
  assume "s \<noteq> []" "x = DecodeRuneInString s" "(r, w) = x"
  then have "0 < w" using DecodeRuneInString_width [of s] by (metis snd_conv)
  then show "((drop w s, f), s, f) \<in> measure (\<lambda>(s, _). length s)" using \<open>s \<noteq> []\<close> by simp
qed

declare IndexFunc.simps [simp del]

definition IndexRune :: "string \<Rightarrow> rune \<Rightarrow> nat option" where
  "IndexRune s r =
    (if r < 0x80 then IndexByte s (chr r)
     else if r = RuneError then IndexFunc s (\<lambda>x. x = RuneError)
     else if \<not> ValidRune r then None
     else Index s (EncodeRune r))"

subsection \<open>qprintf\<close>

text \<open>The closure \<^verbatim>\<open>isNotWordChar\<close> of \<^verbatim>\<open>qprintf\<close>.\<close>

definition isNotWordChar :: "rune \<Rightarrow> bool" where
  "isNotWordChar r =
    (\<not> ((byte (CHR ''A'') \<le> r \<and> r \<le> byte (CHR ''Z''))
        \<or> (byte (CHR ''a'') \<le> r \<and> r \<le> byte (CHR ''z''))
        \<or> r = byte (CHR ''_'')))"

text \<open>
  The error \<^verbatim>\<open>fmt.Errorf("parameter %s is missing", param)\<close> is \<open>ParameterMissing param\<close>;
  an error of \<^verbatim>\<open>json.Marshal\<close> is \<open>MarshalError\<close> with its text. \<open>Error_text\<close> is the
  method \<^verbatim>\<open>Error()\<close>; the wrapper \<^verbatim>\<open>*Error\<close> answers with the text of its cause.
\<close>

fun Error_text :: "error \<Rightarrow> string" where
  "Error_text ErrNoRows = ''sql: no rows in result set''"
| "Error_text (ParameterMissing param) = ''parameter '' @ param @ '' is missing''"
| "Error_text (MarshalError msg) = msg"
| "Error_text (DriverError msg) = msg"
| "Error_text (Wrapped cause query params) = Error_text cause"

lemma IndexByte_less: "IndexByte s c = Some idx \<Longrightarrow> idx < length s"
  by (induction s arbitrary: idx) (auto split: if_splits)

lemma IndexRune_colon_less: "IndexRune s (byte colon) = Some idx \<Longrightarrow> idx < length s"
  by (simp add: IndexRune_def byte_def colon_def IndexByte_less)

text \<open>
  The loop of \<^verbatim>\<open>qprintf\<close>, on the builder \<^verbatim>\<open>result\<close> and the rest \<open>s\<close> of the template
  still to be scanned. \<^verbatim>\<open>break\<close> returns the builder, \<^verbatim>\<open>continue\<close> is the recursive
  call, and each \<^verbatim>\<open>return "", err\<close> is an \<open>Inl\<close>: a failed call has no text.
\<close>

function qprintf_loop :: "Params \<Rightarrow> string \<Rightarrow> string \<Rightarrow> error + string" where
  "qprintf_loop params result s =
    (case IndexRune s (byte colon) of
       None \<Rightarrow> Inr (WriteString result s)
     | Some idx \<Rightarrow>
         if idx = length s - 1 then Inr (WriteString result s)
         else if isNotWordChar (byte (s ! (idx + 1))) then
           qprintf_loop params (WriteString result (take (idx + 2) s)) (drop (idx + 2) s)
         else
           (let result1 = WriteString result (take idx s);
                s1 = drop (idx + 1) s;
                idxEnd = IndexFunc s1 isNotWordChar;
                param = (case idxEnd of None \<Rightarrow> s1 | Some e \<Rightarrow> take e s1)
            in
            (case params param of
               None \<Rightarrow> Inl (ParameterMissing param)
             | Some v \<Rightarrow>
                 (case toDbValue v of
                    Inl err \<Rightarrow> Inl err
                  | Inr castedValue \<Rightarrow>
                      (let result2 = WriteString result1 castedValue in
                       (case idxEnd of
                          None \<Rightarrow> Inr result2
                        | Some e \<Rightarrow> qprintf_loop params result2 (drop e s1)))))))"
  by pat_completeness auto
termination
proof (relation "measure (\<lambda>(_, _, s). length s)", goal_cases)
  case 1
  show ?case by simp
next
  case (2 params result s idx)
  then show ?case using IndexRune_colon_less [of s idx] by simp
next
  case (3 params result s idx)
  then show ?case using IndexRune_colon_less [of s idx] by simp
qed

declare qprintf_loop.simps [simp del]

definition qprintf :: "string \<Rightarrow> Params \<Rightarrow> error + string" where
  "qprintf sql params = qprintf_loop params [] sql"

subsection \<open>The scanner as the specification describes it\<close>

text \<open>
  The template seen as a sequence of segments: text that is copied, and placeholders
  \<open>:name\<close>. \<open>spec_tokens\<close> follows the specification's algorithm character by character:
  a colon followed by a name character starts a placeholder whose name is the maximal
  run of name characters; a colon followed by any other character is copied together
  with that character, and scanning continues after it; a colon at the end is copied.
\<close>

datatype segment = Lit string | Param string

definition isWordByte :: "char \<Rightarrow> bool" where
  "isWordByte c = (\<not> isNotWordChar (byte c))"

function spec_tokens :: "string \<Rightarrow> segment list" where
  "spec_tokens [] = []"
| "spec_tokens [c] = [Lit [c]]"
| "spec_tokens (c # d # ds) =
    (if c \<noteq> colon then Lit [c] # spec_tokens (d # ds)
     else if \<not> isWordByte d then Lit [c] # Lit [d] # spec_tokens ds
     else Param (takeWhile isWordByte (d # ds)) # spec_tokens (dropWhile isWordByte (d # ds)))"
  by pat_completeness auto
termination
proof (relation "measure length", goal_cases)
  case (4 c d ds)
  then show ?case using length_dropWhile_le [of isWordByte ds] by simp
qed auto

text \<open>The text a segment stands for in the template.\<close>

fun seg_source :: "segment \<Rightarrow> string" where
  "seg_source (Lit l) = l"
| "seg_source (Param name) = colon # name"

text \<open>
  Substitution on segments: text is copied, a placeholder is looked up and encoded; the
  first placeholder that is missing or whose value does not encode ends the
  substitution with its error.
\<close>

fun spec_render :: "Params \<Rightarrow> segment list \<Rightarrow> error + string" where
  "spec_render params [] = Inr []"
| "spec_render params (Lit l # segs) =
     (case spec_render params segs of Inl err \<Rightarrow> Inl err | Inr out \<Rightarrow> Inr (l @ out))"
| "spec_render params (Param name # segs) =
     (case params name of
        None \<Rightarrow> Inl (ParameterMissing name)
      | Some v \<Rightarrow>
          (case toDbValue v of
             Inl err \<Rightarrow> Inl err
           | Inr t \<Rightarrow>
               (case spec_render params segs of Inl err \<Rightarrow> Inl err | Inr out \<Rightarrow> Inr (t @ out))))"

text \<open>
  The reading under which a placeholder starts at every colon that is followed by a name
  character and is not directly preceded by another colon; \<open>prev\<close> tells whether the
  character before was a colon.
\<close>

function claimed_tokens :: "bool \<Rightarrow> string \<Rightarrow> segment list" where
  "claimed_tokens prev [] = []"
| "claimed_tokens prev (c # cs) =
    (if c = colon \<and> \<not> prev \<and> cs \<noteq> [] \<and> isWordByte (hd cs)
     then Param (takeWhile isWordByte cs) # claimed_tokens False (dropWhile isWordByte cs)
     else Lit [c] # claimed_tokens (c = colon) cs)"
  by pat_completeness auto
termination
proof (relation "measure (\<lambda>(_, s). length s)", goal_cases)
  case (2 prev c cs)
  then show ?case using length_dropWhile_le [of isWordByte cs] by simp
qed auto

text \<open>What a segment becomes in the output of a substitution that succeeds.\<close>

fun seg_output :: "Params \<Rightarrow> segment \<Rightarrow> string" where
  "seg_output params (Lit l) = l"
| "seg_output params (Param name) =
     (case params name of
        None \<Rightarrow> []
      | Some v \<Rightarrow> (case toDbValue v of Inl err \<Rightarrow> [] | Inr t \<Rightarrow> t))"

text \<open>Three colons in a row somewhere in the template.\<close>

fun has_triple_colon :: "string \<Rightarrow> bool" where
  "has_triple_colon (a # b # c # rest) =
     ((a = colon \<and> b = colon \<and> c = colon) \<or> has_triple_colon (b # c # rest))"
| "has_triple_colon _ = False"

section \<open>The statement executor\<close>

text \<open>
  The collaborator \<^verbatim>\<open>Queryable\<close> (a \<^verbatim>\<open>*sql.DB\<close> or a \<^verbatim>\<open>*sql.Tx\<close>) is a record of its
  methods over a state \<open>'db\<close> that each call may change; a call that is not made leaves
  the state as it was. The context argument is handed on unchanged and is left out, and
  so is \<^verbatim>\<open>PrepareContext\<close>, which the package never calls. A \<^verbatim>\<open>sql.Result\<close> is the number
  of rows affected. A \<^verbatim>\<open>*sql.Row\<close> is what its \<^verbatim>\<open>Scan\<close> will report: an error, or the
  values stored into the destinations. A \<^verbatim>\<open>*sql.Rows\<close> is, for each row that \<^verbatim>\<open>Next\<close>
  reaches, what scanning that row reports; the model covers result sets whose iteration
  ends without an error of its own (the package never asks \<^verbatim>\<open>rows.Err()\<close>).
\<close>

type_synonym Result = nat

type_synonym 'a Row = "error + 'a"

type_synonym 'a Rows = "(error + 'a) list"

record ('db, 'a) Queryable =
  ExecContext :: "string \<Rightarrow> 'db \<Rightarrow> (error + Result) \<times> 'db"
  QueryContext :: "string \<Rightarrow> 'db \<Rightarrow> (error + 'a Rows) \<times> 'db"
  QueryRowContext :: "string \<Rightarrow> 'db \<Rightarrow> 'a Row \<times> 'db"

text \<open>\<^verbatim>\<open>err == sql.ErrNoRows\<close>: the error is the sentinel itself.\<close>

fun is_ErrNoRows :: "error \<Rightarrow> bool" where
  "is_ErrNoRows ErrNoRows = True"
| "is_ErrNoRows _ = False"

definition Row_Scan :: "'a Row \<Rightarrow> error + 'a" where
  "Row_Scan row = row"

text \<open>
  \<^verbatim>\<open>wrapError\<close> on an error that is not nil, which is how every call site uses it: the
  \<^verbatim>\<open>*Error\<close> that keeps the cause, the template and the parameters.
\<close>

definition wrapError :: "error \<Rightarrow> string \<Rightarrow> Params \<Rightarrow> error" where
  "wrapError err sql params = Wrapped err sql params"

definition Exec :: "('db, 'a) Queryable \<Rightarrow> 'db \<Rightarrow> string \<Rightarrow> Params \<Rightarrow> (error + Result) \<times> 'db" where
  "Exec q db sql params =
    (case qprintf sql params of
       Inl err \<Rightarrow> (Inl (wrapError err sql params), db)
     | Inr query \<Rightarrow>
         (case ExecContext q query db of
            (Inl err, db') \<Rightarrow> (Inl (wrapError err sql params), db')
          | (Inr res, db') \<Rightarrow> (Inr res, db')))"

definition Query :: "('db, 'a) Queryable \<Rightarrow> 'db \<Rightarrow> string \<Rightarrow> Params \<Rightarrow> (error + 'a Rows) \<times> 'db" where
  "Query q db sql params =
    (case qprintf sql params of
       Inl err \<Rightarrow> (Inl (wrapError err sql params), db)
     | Inr query \<Rightarrow>
         (case QueryContext q query db of
            (Inl err, db') \<Rightarrow> (Inl (wrapError err sql params), db')
          | (Inr rows, db') \<Rightarrow> (Inr rows, db')))"

definition QueryRow :: "('db, 'a) Queryable \<Rightarrow> 'db \<Rightarrow> string \<Rightarrow> Params \<Rightarrow> (error + 'a Row) \<times> 'db" where
  "QueryRow q db sql params =
    (case qprintf sql params of
       Inl err \<Rightarrow> (Inl (wrapError err sql params), db)
     | Inr query \<Rightarrow>
         (case QueryRowContext q query db of (row, db') \<Rightarrow> (Inr row, db')))"

text \<open>
  The convenience operations. Each returns its error, or what it stored into its
  destination. \<open>Unmarshal\<close> is \<^verbatim>\<open>json.Unmarshal\<close> into the type of the target.
\<close>

definition QueryRowAndScan ::
  "('db, 'a) Queryable \<Rightarrow> 'db \<Rightarrow> string \<Rightarrow> Params \<Rightarrow> (error + 'a) \<times> 'db" where
  "QueryRowAndScan q db sql params =
    (case QueryRow q db sql params of
       (Inl err, db') \<Rightarrow> (Inl err, db')
     | (Inr row, db') \<Rightarrow>
         (case Row_Scan row of
            Inl err \<Rightarrow>
              if is_ErrNoRows err then (Inl err, db')
              else (Inl (wrapError err sql params), db')
          | Inr dest \<Rightarrow> (Inr dest, db')))"

definition QueryJSONRowIntoStruct ::
  "('db, string) Queryable \<Rightarrow> (string \<Rightarrow> error + 't) \<Rightarrow> 'db \<Rightarrow> string \<Rightarrow> Params
    \<Rightarrow> (error + 't) \<times> 'db" where
  "QueryJSONRowIntoStruct q Unmarshal db sql params =
    (case QueryRow q db sql params of
       (Inl err, db') \<Rightarrow> (Inl err, db')
     | (Inr row, db') \<Rightarrow>
         (case Row_Scan row of
            Inl err \<Rightarrow>
              if is_ErrNoRows err then (Inl err, db')
              else (Inl (wrapError err sql params), db')
          | Inr data \<Rightarrow>
              (case Unmarshal data of
                 Inl err \<Rightarrow> (Inl (wrapError err sql params), db')
               | Inr target \<Rightarrow> (Inr target, db'))))"

definition QueryRowIntoStruct ::
  "('db, 'a) Queryable \<Rightarrow> 'db \<Rightarrow> string \<Rightarrow> Params \<Rightarrow> (error + 'a) \<times> 'db" where
  "QueryRowIntoStruct q db sql params =
    (case Query q db sql params of
       (Inl err, db') \<Rightarrow> (Inl err, db')
     | (Inr rows, db') \<Rightarrow>
         (case rows of
            [] \<Rightarrow> (Inl ErrNoRows, db')
          | r # _ \<Rightarrow>
              (case r of
                 Inl err \<Rightarrow> (Inl (wrapError err sql params), db')
               | Inr target \<Rightarrow> (Inr target, db'))))"

text \<open>The loop of \<^verbatim>\<open>QueryRowsIntoSlice\<close> over the rows, with the slice built so far.\<close>

fun scan_rows :: "string \<Rightarrow> Params \<Rightarrow> 'a Rows \<Rightarrow> 'a list \<Rightarrow> error + 'a list" where
  "scan_rows sql params [] v = Inr v"
| "scan_rows sql params (r # rows) v =
     (case r of
        Inl err \<Rightarrow> Inl (wrapError err sql params)
      | Inr elem \<Rightarrow> scan_rows sql params rows (v @ [elem]))"

definition QueryRowsIntoSlice ::
  "('db, 'a) Queryable \<Rightarrow> 'db \<Rightarrow> string \<Rightarrow> Params \<Rightarrow> (error + 'a list) \<times> 'db" where
  "QueryRowsIntoSlice q db sql params =
    (case Query q db sql params of
       (Inl err, db') \<Rightarrow> (Inl err, db')
     | (Inr rows, db') \<Rightarrow> (scan_rows sql params rows [], db'))"

text \<open>
  \<^verbatim>\<open>ScanJSONRowsIntoStruct\<close> works on a result set the caller has obtained and advanced
  itself; \<open>row\<close> is the outcome of \<^verbatim>\<open>rows.Scan\<close> on the current row. It has neither the
  template nor the parameters, and returns both of its errors as they are.
\<close>

definition ScanJSONRowsIntoStruct :: "(string \<Rightarrow> error + 't) \<Rightarrow> string Row \<Rightarrow> error + 't" where
  "ScanJSONRowsIntoStruct Unmarshal row =
    (case Row_Scan row of
       Inl err \<Rightarrow> Inl err
     | Inr data \<Rightarrow> Unmarshal data)"

section \<open>The migration runner\<close>

record Migration =
  Version :: int
  Sql :: string

definition InitialMigration :: string where
  "InitialMigration =
    [CHR 0x0A] @ ''CREATE TABLE IF NOT EXISTS migrations (version INT NOT NULL PRIMARY KEY);''
    @ [CHR 0x0A] @ ''INSERT INTO migrations VALUES (1);'' @ [CHR 0x0A]"

text \<open>
  The \<^verbatim>\<open>*sql.DB\<close> of \<^verbatim>\<open>Migrate\<close>: reading one row from the database, beginning a
  transaction, the \<^verbatim>\<open>Queryable\<close> methods of the \<^verbatim>\<open>*sql.Tx\<close>, and its end. \<open>'db\<close> is the
  persisted state, \<open>'tx\<close> the state of an open transaction. \<^verbatim>\<open>tx.Exec\<close> is
  \<^verbatim>\<open>tx.ExecContext\<close> with the background context. \<open>Commit\<close> returns its error, which
  \<^verbatim>\<open>Run\<close> ignores, and the state persisted; \<open>Rollback\<close> is the deferred call, which gives
  the state persisted when the transaction is dropped.
\<close>

record ('db, 'tx) SqlDB =
  DB_QueryRow :: "string \<Rightarrow> 'db \<Rightarrow> int Row"
  Begin :: "'db \<Rightarrow> error + 'tx"
  Tx :: "('tx, int) Queryable"
  Commit :: "'tx \<Rightarrow> error option \<times> 'db"
  Rollback :: "'tx \<Rightarrow> 'db"

definition getLatestVersion :: "('db, 'tx) SqlDB \<Rightarrow> 'db \<Rightarrow> error + int" where
  "getLatestVersion m db =
    (case Row_Scan (DB_QueryRow m ''SELECT version FROM migrations'' db) of
       Inl err \<Rightarrow>
         if \<not> is_ErrNoRows err \<and> \<not> Contains (Error_text err) ''migrations'' then Inl err
         else Inr 0
     | Inr latest \<Rightarrow> Inr latest)"

text \<open>
  The loop of \<^verbatim>\<open>Run\<close> over the migrations, on the tracker \<^verbatim>\<open>latest\<close>, the error \<^verbatim>\<open>err\<close>
  (\<open>None\<close> for nil) and the transaction. The tracker is assigned after \<^verbatim>\<open>tx.Exec\<close>
  whether or not it failed.
\<close>

fun migrate_loop ::
  "('db, 'tx) SqlDB \<Rightarrow> Migration list \<Rightarrow> int \<times> error option \<times> 'tx \<Rightarrow> int \<times> error option \<times> 'tx" where
  "migrate_loop m [] (latest, err, tx) = (latest, err, tx)"
| "migrate_loop m (mig # migrations) (latest, err, tx) =
     (case err of
        Some _ \<Rightarrow> (latest, err, tx)
      | None \<Rightarrow>
          if Version mig > latest then
            (case ExecContext (Tx m) (Sql mig) tx of
               (r, tx') \<Rightarrow>
                 migrate_loop m migrations
                   (Version mig, (case r of Inl e \<Rightarrow> Some e | Inr _ \<Rightarrow> None), tx'))
          else migrate_loop m migrations (latest, err, tx))"

text \<open>
  \<^verbatim>\<open>Run\<close> returns its error (\<open>None\<close> for nil) and leaves the database in a state: the one
  it found when no transaction was begun, the committed one after \<^verbatim>\<open>tx.Commit()\<close>, and
  otherwise the one the deferred \<^verbatim>\<open>tx.Rollback()\<close> leaves.
\<close>

definition Run :: "('db, 'tx) SqlDB \<Rightarrow> 'db \<Rightarrow> Migration list \<Rightarrow> error option \<times> 'db" where
  "Run m db migrations =
    (case getLatestVersion m db of
       Inl err \<Rightarrow> (Some err, db)
     | Inr latest0 \<Rightarrow>
         (case Begin m db of
            Inl err \<Rightarrow> (Some err, db)
          | Inr tx0 \<Rightarrow>
              (case migrate_loop m migrations (latest0, None, tx0) of
                 (latest, err, tx) \<Rightarrow>
                   (case err of
                      None \<Rightarrow>
                        (case Exec (Tx m) tx ''UPDATE migrations SET version = :latest''
                                [''latest'' \<mapsto> IntVal latest] of
                           (Inl err', tx') \<Rightarrow> (Some err', Rollback m tx')
                         | (Inr _, tx') \<Rightarrow> (None, snd (Commit m tx')))
                    | Some _ \<Rightarrow> (err, Rollback m tx)))))"

subsection \<open>A database to run the migrations on\<close>

text \<open>
  The database itself is outside the package. To state what a run persists, the runner
  is put on a small database that holds the catalog table \<^verbatim>\<open>migrations\<close> (\<open>None\<close> while
  the table does not exist, else its rows) and the list of the migration bodies it has
  executed. It knows the two statements of the package by their text,
  \<open>InitialMigration\<close>, which it records as a body, and the version update, and the
  version query; any other statement is a migration body, which it records. \<open>rejects\<close>
  says which statements fail. A transaction works on a copy; commit persists the copy
  and rollback the original.
\<close>

record database =
  catalog :: "int list option"
  executed :: "string list"

record transaction =
  snapshot :: database
  current :: database

definition quote_mark :: char where
  "quote_mark = CHR 0x22"

definition relation_missing :: error where
  "relation_missing =
    DriverError (''pq: relation '' @ [quote_mark] @ ''migrations'' @ [quote_mark] @ '' does not exist'')"

definition parse_nat :: "string \<Rightarrow> nat" where
  "parse_nat s = foldl (\<lambda>acc c. 10 * acc + (byte c - 48)) 0 s"

definition is_number :: "string \<Rightarrow> bool" where
  "is_number s = (s \<noteq> [] \<and> (\<forall>c\<in>set s. 48 \<le> byte c \<and> byte c \<le> 57))"

definition parse_int :: "string \<Rightarrow> int option" where
  "parse_int s =
    (if is_number s then Some (int (parse_nat s))
     else if s \<noteq> [] \<and> hd s = CHR ''-'' \<and> is_number (tl s) then Some (- int (parse_nat (tl s)))
     else None)"

definition update_prefix :: string where
  "update_prefix = ''UPDATE migrations SET version = ''"

definition db_exec :: "(string \<Rightarrow> bool) \<Rightarrow> string \<Rightarrow> database \<Rightarrow> (error + Result) \<times> database" where
  "db_exec rejects sql db =
    (if rejects sql then (Inl (DriverError (''pq: error in statement: '' @ sql)), db)
     else if sql = InitialMigration then
       (case catalog db of
          None \<Rightarrow> (Inr 1, db\<lparr>catalog := Some [1], executed := executed db @ [sql]\<rparr>)
        | Some rows \<Rightarrow>
            if 1 \<in> set rows then (Inl (DriverError ''pq: duplicate key value''), db)
            else (Inr 1, db\<lparr>catalog := Some (rows @ [1]), executed := executed db @ [sql]\<rparr>))
     else if take (length update_prefix) sql = update_prefix then
       (case catalog db of
          None \<Rightarrow> (Inl relation_missing, db)
        | Some rows \<Rightarrow>
            (case parse_int (drop (length update_prefix) sql) of
               None \<Rightarrow> (Inl (DriverError ''pq: syntax error''), db)
             | Some n \<Rightarrow>
                 if length rows \<le> 1 then (Inr (length rows), db\<lparr>catalog := Some (map (\<lambda>_. n) rows)\<rparr>)
                 else (Inl (DriverError ''pq: duplicate key value''), db)))
     else (Inr 0, db\<lparr>executed := executed db @ [sql]\<rparr>))"

definition db_query_row :: "string \<Rightarrow> database \<Rightarrow> int Row" where
  "db_query_row sql db =
    (if sql = ''SELECT version FROM migrations'' then
       (case catalog db of
          None \<Rightarrow> Inl relation_missing
        | Some [] \<Rightarrow> Inl ErrNoRows
        | Some (v # _) \<Rightarrow> Inr v)
     else Inl (DriverError ''pq: query not supported''))"

definition tx_queryable :: "(string \<Rightarrow> bool) \<Rightarrow> (transaction, int) Queryable" where
  "tx_queryable rejects =
    \<lparr>ExecContext = (\<lambda>sql tx.
        case db_exec rejects sql (current tx) of (r, db') \<Rightarrow> (r, tx\<lparr>current := db'\<rparr>)),
     QueryContext = (\<lambda>sql tx. (Inl (DriverError ''pq: query not supported''), tx)),
     QueryRowContext = (\<lambda>sql tx. (db_query_row sql (current tx), tx))\<rparr>"

definition memdb :: "(string \<Rightarrow> bool) \<Rightarrow> (database, transaction) SqlDB" where
  "memdb rejects =
    \<lparr>DB_QueryRow = db_query_row,
     Begin = (\<lambda>db. Inr \<lparr>snapshot = db, current = db\<rparr>),
     Tx = tx_queryable rejects,
     Commit = (\<lambda>tx. (None, current tx)),
     Rollback = snapshot\<rparr>"

text \<open>A statement that this database executes as a plain migration body.\<close>

definition migration_body :: "(string \<Rightarrow> bool) \<Rightarrow> string \<Rightarrow> bool" where
  "migration_body rejects sql =
    (\<not> rejects sql \<and> sql \<noteq> InitialMigration \<and> take (length update_prefix) sql \<noteq> update_prefix)"

subsection \<open>A collaborator that records its calls\<close>

text \<open>
  Its state is the list of the statements it has received; it answers every
  \<^verbatim>\<open>ExecContext\<close>, \<^verbatim>\<open>QueryContext\<close> and \<^verbatim>\<open>QueryRowContext\<close> with the given replies.
\<close>

definition recorder ::
  "(error + Result) \<Rightarrow> (error + 'a Rows) \<Rightarrow> 'a Row \<Rightarrow> (string list, 'a) Queryable" where
  "recorder exec_reply query_reply row_reply =
    \<lparr>ExecContext = (\<lambda>query calls. (exec_reply, calls @ [query])),
     QueryContext = (\<lambda>query calls. (query_reply, calls @ [query])),
     QueryRowContext = (\<lambda>query calls. (row_reply, calls @ [query]))\<rparr>"

section \<open>Facts about bytes and the UTF-8 coder\<close>

subsection \<open>Arithmetic of the bit fields\<close>


lemma mod_shift: "k < m \<Longrightarrow> (m * q + k) mod m = (k::nat)"
  by simp

lemma div_eq_bounds: "0 < n \<Longrightarrow> r div n = q \<Longrightarrow> q * n \<le> r \<and> r < (q + 1) * n" for r :: nat
  using dividend_less_times_div [of n r] div_times_less_eq_dividend [of r n]
  by (auto simp: algebra_simps)

lemma mod_between: 
  fixes x :: nat
  assumes "m * q \<le> x" "x < m * q + k" "k \<le> m"
  shows "x mod m < k"
proof -
  obtain j where j: "x = m * q + j" using assms(1) le_Suc_ex by blast
  then have "j < k" using assms(2) by simp
  then show ?thesis unfolding j using assms(3) by simp
qed

lemma mod_between':
  fixes x :: nat
  assumes "m * q + k \<le> x" "x < m * (q + 1)" "k \<le> m"
  shows "k \<le> x mod m"
proof -
  obtain j where j: "x = m * q + j" using assms(1) le_Suc_ex
    by (metis add.assoc) 
  then have "k \<le> j" "j < m" using assms(1,2) by simp_all
  then show ?thesis unfolding j by simp
qed

lemma cont_hi3:
  fixes r :: nat
  assumes "r div 4096 = 13" "r < 0xD800 \<or> 0xDFFF < r"
  shows "(r div 64) mod 64 < 32"
proof -
  have "13 * 4096 \<le> r \<and> r < (13 + 1) * 4096" by (rule div_eq_bounds) (use assms in simp_all)
  then have a: "r < 0xD800" and b: "53248 \<le> r" using assms(2) by simp_all
  have "64 * 13 \<le> r div 64" "r div 64 < 64 * 13 + 32" 
    using a b by (simp_all add: less_eq_div_iff_mult_less_eq div_less_iff_less_mult)
  then show ?thesis by (rule mod_between) simp
qed

lemma cont_hi4: 
  fixes r :: nat
  assumes "r div 262144 = 4" "r \<le> 0x10FFFF"
  shows "(r div 4096) mod 64 < 16"
proof -
  have "4 * 262144 \<le> r \<and> r < (4 + 1) * 262144" by (rule div_eq_bounds) (use assms in simp_all)
  then have b: "1048576 \<le> r" by simp
  have "64 * 4 \<le> r div 4096" "r div 4096 < 64 * 4 + 16" 
    using assms(2) b by (simp_all add: less_eq_div_iff_mult_less_eq div_less_iff_less_mult)
  then show ?thesis by (rule mod_between) simp
qed

lemma cont_lo3: "0x7FF < r \<Longrightarrow> r div 4096 = 0 \<Longrightarrow> 32 \<le> (r div 64) mod 64" for r :: nat
  by (simp add: div_eq_0_iff) 
lemma cont_lo4: "0xFFFF < r \<Longrightarrow> r div 262144 = 0 \<Longrightarrow> 16 \<le> (r div 4096) mod 64" for r :: nat
  by (simp add: div_eq_0_iff)

lemma mod_lead2: "d < 32 \<Longrightarrow> (0xC0 + d) mod 32 = (d::nat)" using mod_shift [of d 32 6] by simp
lemma mod_lead3: "d < 16 \<Longrightarrow> (0xE0 + d) mod 16 = (d::nat)" using mod_shift [of d 16 14] by simp
lemma mod_lead4: "d < 8 \<Longrightarrow> (0xF0 + d) mod 8 = (d::nat)" using mod_shift [of d 8 30] by simp
lemma mod_cont: "(0x80 + d mod 64) mod 64 = (d::nat) mod 64" using mod_shift [of "d mod 64" 64 2] by simp


lemma split3: "(r div 4096) * 4096 + ((r div 64) mod 64) * 64 + r mod 64 = (r::nat)"
  using mod_mult2_eq [of r 64 64] div_mult_mod_eq [of r 4096] by simp

lemma split4:
  "(r div 262144) * 262144 + ((r div 4096) mod 64) * 4096 + ((r div 64) mod 64) * 64
    + r mod 64 = (r::nat)"
proof -
  have "r mod 262144 = 4096 * ((r div 4096) mod 64) + r mod 4096"
    using mod_mult2_eq [of r 4096 64] by simp
  moreover have "r mod 4096 = 64 * ((r div 64) mod 64) + r mod 64"
    using mod_mult2_eq [of r 64 64] by simp
  ultimately show ?thesis using div_mult_mod_eq [of r 262144] by simp
qed

subsection \<open>Decoding what the encoder wrote\<close>

lemma byte_chr: "n < 256 \<Longrightarrow> byte (chr n) = n"
  by (simp add: byte_def chr_def)

lemma chr_byte: "chr (byte c) = c"
  by (simp add: byte_def chr_def)

lemma byte_lt: "byte c < 256"
  by (simp add: byte_def)

lemma Decode1: "byte c0 < 0x80 \<Longrightarrow> DecodeRuneInString (c0 # rest) = (byte c0, 1)"
  by (simp add: DecodeRuneInString_def Let_def)

lemma Decode2:
  assumes "0xC2 \<le> byte c0" "byte c0 < 0xE0" "0x80 \<le> byte c1" "byte c1 \<le> 0xBF"
  shows "DecodeRuneInString (c0 # c1 # rest) = ((byte c0 mod 32) * 64 + byte c1 mod 64, 2)"
proof -
  have 1: "\<not> byte c0 < 0x80" "\<not> (byte c0 < 0xC2 \<or> 0xF4 < byte c0)" "byte c0 \<noteq> 0xE0"
    "byte c0 \<noteq> 0xF0" "byte c0 \<noteq> 0xED" "byte c0 \<noteq> 0xF4"
    using assms by auto
  have 2: "\<not> (byte c1 < 0x80 \<or> 0xBF < byte c1)" using assms by auto
  show ?thesis
    unfolding DecodeRuneInString_def Let_def using 1 2 assms(2) by simp
qed

lemma Decode3:
  assumes "0xE0 \<le> byte c0" "byte c0 < 0xF0"
    and "(if byte c0 = 0xE0 then 0xA0 else 0x80) \<le> byte c1"
    and "byte c1 \<le> (if byte c0 = 0xED then 0x9F else 0xBF)"
    and "0x80 \<le> byte c2" "byte c2 \<le> 0xBF"
  shows "DecodeRuneInString (c0 # c1 # c2 # rest) =
    ((byte c0 mod 16) * 4096 + (byte c1 mod 64) * 64 + byte c2 mod 64, 3)"
proof -
  have 1: "\<not> byte c0 < 0x80" "\<not> (byte c0 < 0xC2 \<or> 0xF4 < byte c0)" "\<not> byte c0 < 0xE0"
    "byte c0 \<noteq> 0xF0" "byte c0 \<noteq> 0xF4"
    using assms by auto
  have 2: "\<not> (byte c1 < (if byte c0 = 0xE0 then 0xA0 else 0x80)
       \<or> (if byte c0 = 0xED then 0x9F else 0xBF) < byte c1)"
    using assms(3,4) by auto
  have 3: "\<not> (byte c2 < 0x80 \<or> 0xBF < byte c2)" using assms by auto
  show ?thesis
    unfolding DecodeRuneInString_def Let_def using 1 2 3 assms(2)
    by (auto split: if_splits)
qed

lemma Decode4:
  assumes "0xF0 \<le> byte c0" "byte c0 \<le> 0xF4"
    and "(if byte c0 = 0xF0 then 0x90 else 0x80) \<le> byte c1"
    and "byte c1 \<le> (if byte c0 = 0xF4 then 0x8F else 0xBF)"
    and "0x80 \<le> byte c2" "byte c2 \<le> 0xBF"
    and "0x80 \<le> byte c3" "byte c3 \<le> 0xBF"
  shows "DecodeRuneInString (c0 # c1 # c2 # c3 # rest) =
    ((byte c0 mod 8) * 262144 + (byte c1 mod 64) * 4096 + (byte c2 mod 64) * 64
      + byte c3 mod 64, 4)"
proof -
  have 1: "\<not> byte c0 < 0x80" "\<not> (byte c0 < 0xC2 \<or> 0xF4 < byte c0)" "\<not> byte c0 < 0xE0"
    "\<not> byte c0 < 0xF0" "byte c0 \<noteq> 0xE0" "byte c0 \<noteq> 0xED"
    using assms by auto
  have 2: "\<not> (byte c1 < (if byte c0 = 0xF0 then 0x90 else 0x80)
       \<or> (if byte c0 = 0xF4 then 0x8F else 0xBF) < byte c1)"
    using assms(3,4) by auto
  have 3: "\<not> (byte c2 < 0x80 \<or> 0xBF < byte c2)" using assms by auto
  have 4: "\<not> (byte c3 < 0x80 \<or> 0xBF < byte c3)" using assms by auto
  show ?thesis
    unfolding DecodeRuneInString_def Let_def using 1 2 3 4
    by (auto split: if_splits)
qed

lemma Decode_Encode1:
  assumes "r \<le> 0x7F"
  shows "DecodeRuneInString (EncodeRune r @ rest) = (r, 1)"
proof -
  have e: "EncodeRune r = [chr r]" using assms by (simp add: EncodeRune_def)
  have b: "byte (chr r) = r" using assms by (simp add: byte_chr)
  show ?thesis unfolding e using assms b Decode1 [of "chr r" rest] by simp
qed

lemma Decode_Encode2:
  assumes "0x7F < r" "r \<le> 0x7FF"
  shows "DecodeRuneInString (EncodeRune r @ rest) = (r, 2)"
proof -
  define c0 where "c0 = chr (0xC0 + r div 64)"
  define c1 where "c1 = chr (0x80 + r mod 64)"
  have e: "EncodeRune r = [c0, c1]" using assms by (simp add: EncodeRune_def c0_def c1_def)
  have d: "r div 64 < 32" "2 \<le> r div 64" using assms by auto
  have b0: "byte c0 = 0xC0 + r div 64" unfolding c0_def using d by (simp add: byte_chr)
  have b1: "byte c1 = 0x80 + r mod 64" unfolding c1_def by (simp add: byte_chr)
  have "DecodeRuneInString (c0 # c1 # rest) = ((byte c0 mod 32) * 64 + byte c1 mod 64, 2)"
    by (rule Decode2) (use d in \<open>simp_all add: b0 b1\<close>)
  also have "(byte c0 mod 32) * 64 + byte c1 mod 64 = r"
    unfolding b0 b1 mod_lead2 [OF d(1)] mod_cont by simp
  finally show ?thesis by (simp add: e)
qed

lemma Decode_Encode3:
  assumes "0x7FF < r" "r < 0xD800 \<or> (0xDFFF < r \<and> r \<le> 0xFFFF)"
  shows "DecodeRuneInString (EncodeRune r @ rest) = (r, 3)"
proof -
  define c0 where "c0 = chr (0xE0 + r div 4096)"
  define c1 where "c1 = chr (0x80 + (r div 64) mod 64)"
  define c2 where "c2 = chr (0x80 + r mod 64)"
  have e: "EncodeRune r = [c0, c1, c2]"
    using assms by (auto simp add: EncodeRune_def c0_def c1_def c2_def)
  have d: "r div 4096 < 16" using assms by auto
  have b0: "byte c0 = 0xE0 + r div 4096" unfolding c0_def using d by (simp add: byte_chr)
  have b1: "byte c1 = 0x80 + (r div 64) mod 64" unfolding c1_def by (simp add: byte_chr)
  have b2: "byte c2 = 0x80 + r mod 64" unfolding c2_def by (simp add: byte_chr)
  have lo: "r div 4096 = 0 \<Longrightarrow> 32 \<le> (r div 64) mod 64" using assms(1) by (rule cont_lo3)
  have hi: "r div 4096 = 13 \<Longrightarrow> (r div 64) mod 64 < 32"
    using assms(2) by (auto intro: cont_hi3)
  have "DecodeRuneInString (c0 # c1 # c2 # rest) =
      ((byte c0 mod 16) * 4096 + (byte c1 mod 64) * 64 + byte c2 mod 64, 3)"
    by (rule Decode3) (use d lo hi in \<open>auto simp add: b0 b1 b2\<close>)
  also have "(byte c0 mod 16) * 4096 + (byte c1 mod 64) * 64 + byte c2 mod 64 = r"
    unfolding b0 b1 b2 mod_lead3 [OF d] mod_cont by (rule split3)
  finally show ?thesis by (simp add: e)
qed

lemma Decode_Encode4:
  assumes "0xFFFF < r" "r \<le> 0x10FFFF"
  shows "DecodeRuneInString (EncodeRune r @ rest) = (r, 4)"
proof -
  define c0 where "c0 = chr (0xF0 + r div 262144)"
  define c1 where "c1 = chr (0x80 + (r div 4096) mod 64)"
  define c2 where "c2 = chr (0x80 + (r div 64) mod 64)"
  define c3 where "c3 = chr (0x80 + r mod 64)"
  have e: "EncodeRune r = [c0, c1, c2, c3]"
    using assms by (auto simp add: EncodeRune_def MaxRune_def c0_def c1_def c2_def c3_def)
  have d: "r div 262144 < 8" "r div 262144 \<le> 4" using assms by auto
  have b0: "byte c0 = 0xF0 + r div 262144" unfolding c0_def using d by (simp add: byte_chr)
  have b1: "byte c1 = 0x80 + (r div 4096) mod 64" unfolding c1_def by (simp add: byte_chr)
  have b2: "byte c2 = 0x80 + (r div 64) mod 64" unfolding c2_def by (simp add: byte_chr)
  have b3: "byte c3 = 0x80 + r mod 64" unfolding c3_def by (simp add: byte_chr)
  have lo: "r div 262144 = 0 \<Longrightarrow> 16 \<le> (r div 4096) mod 64" using assms(1) by (rule cont_lo4)
  have hi: "r div 262144 = 4 \<Longrightarrow> (r div 4096) mod 64 < 16"
    using assms(2) by (auto intro: cont_hi4)
  have "DecodeRuneInString (c0 # c1 # c2 # c3 # rest) =
    ((byte c0 mod 8) * 262144 + (byte c1 mod 64) * 4096 + (byte c2 mod 64) * 64
      + byte c3 mod 64, 4)"
    by (rule Decode4) (use d lo hi in \<open>auto simp add: b0 b1 b2 b3\<close>)
  also have "(byte c0 mod 8) * 262144 + (byte c1 mod 64) * 4096 + (byte c2 mod 64) * 64
      + byte c3 mod 64 = r"
    unfolding b0 b1 b2 b3 mod_lead4 [OF d(1)] mod_cont by (rule split4)
  finally show ?thesis by (simp add: e)
qed

lemma EncodeRune_length: "length (EncodeRune r) =
  (if r \<le> 0x7F then 1 else if r \<le> 0x7FF then 2
   else if r < 0xD800 \<or> (0xDFFF < r \<and> r \<le> 0xFFFF) then 3
   else if 0xFFFF < r \<and> r \<le> MaxRune then 4 else 3)"
  by (simp add: EncodeRune_def)

lemma Decode_Encode:
  assumes "ValidRune r"
  shows "DecodeRuneInString (EncodeRune r @ rest) = (r, length (EncodeRune r))"
proof -
  consider "r \<le> 0x7F" | "0x7F < r" "r \<le> 0x7FF"
    | "0x7FF < r" "r < 0xD800 \<or> (0xDFFF < r \<and> r \<le> 0xFFFF)"
    | "0xFFFF < r" "r \<le> 0x10FFFF"
    using assms unfolding ValidRune_def MaxRune_def by atomize_elim arith
  then show ?thesis
  proof cases
    case 1
    then show ?thesis by (simp add: Decode_Encode1 EncodeRune_length)
  next
    case 2
    then show ?thesis by (simp add: Decode_Encode2 EncodeRune_length)
  next
    case 3
    then show ?thesis using Decode_Encode3 [OF 3, of rest] by (auto simp add: EncodeRune_length)
  next
    case 4
    then show ?thesis using Decode_Encode4 [OF 4, of rest]
      by (auto simp add: EncodeRune_length MaxRune_def)
  qed
qed



lemma byte_bslash: "byte bslash = 92" by (simp add: byte_def bslash_def)
lemma byte_squote: "byte squote = 39" by (simp add: byte_def squote_def)

lemma EncodeRune_byte: "byte c \<le> 0x7F \<Longrightarrow> EncodeRune (byte c) = [c]"
  by (simp add: EncodeRune_def chr_byte)

lemma EncodeRune_squote: "EncodeRune 39 = [squote]"
  using EncodeRune_byte [of squote] by (simp add: byte_squote)

lemma EncodeRune_bslash: "EncodeRune 92 = [bslash]"
  using EncodeRune_byte [of bslash] by (simp add: byte_bslash)

lemma EncodeRune_nonempty: "EncodeRune r \<noteq> []"
  by (simp add: EncodeRune_def)

lemma utf8_Cons: "utf8 (r # rs) = EncodeRune r @ utf8 rs"
  by (simp add: utf8_def)

lemma utf8_append: "utf8 (xs @ ys) = utf8 xs @ utf8 ys"
  by (simp add: utf8_def)

lemma utf8_doubled:
  "utf8 (doubled r) = (if r = byte bslash then [bslash, bslash]
     else if r = byte squote then [squote, squote] else EncodeRune r)"
  by (simp add: doubled_def utf8_def EncodeRune_squote EncodeRune_bslash byte_bslash byte_squote)

lemma quoteLoop_Nil: "quoteLoop [] (b, h) = (b, h)"
  by (simp add: quoteLoop.simps)

lemma quoteLoop_step:
  assumes "s \<noteq> []" "DecodeRuneInString s = (c, w)"
  shows "quoteLoop s (b, h) =
    (if c = byte bslash then quoteLoop (drop w s) (WriteString b [bslash, bslash], True)
     else if c = byte squote then quoteLoop (drop w s) (WriteString b [squote, squote], h)
     else quoteLoop (drop w s) (WriteRune b c, h))"
  by (rule trans [OF quoteLoop.simps]) (simp add: assms)

lemma quoteLoop_utf8:
  assumes "\<forall>r\<in>set rs. ValidRune r"
  shows "quoteLoop (utf8 rs) (b, h) =
    (b @ utf8 (concat (map doubled rs)), h \<or> byte bslash \<in> set rs)"
  using assms
proof (induction rs arbitrary: b h)
  case Nil
  then show ?case by (simp add: utf8_def quoteLoop_Nil)
next
  case (Cons r rs)
  have v: "ValidRune r" and vs: "\<forall>r\<in>set rs. ValidRune r" using Cons.prems by simp_all
  have ne: "utf8 (r # rs) \<noteq> []" by (simp add: utf8_Cons EncodeRune_nonempty)
  have dec: "DecodeRuneInString (utf8 (r # rs)) = (r, length (EncodeRune r))"
    unfolding utf8_Cons using v by (rule Decode_Encode)
  have dr: "drop (length (EncodeRune r)) (utf8 (r # rs)) = utf8 rs"
    by (simp add: utf8_Cons)
  have out: "utf8 (concat (map doubled (r # rs))) = utf8 (doubled r) @ utf8 (concat (map doubled rs))"
    by (simp add: utf8_append)
  show ?case
  proof (cases "r = byte bslash")
    case True
    have "quoteLoop (utf8 (r # rs)) (b, h) = quoteLoop (utf8 rs) (WriteString b [bslash, bslash], True)"
      using quoteLoop_step [OF ne dec] dr True by simp
    then show ?thesis using Cons.IH [OF vs] True
      by (simp add: utf8_append utf8_doubled WriteString_def)
  next
    case False
    note nb = False
    show ?thesis
    proof (cases "r = byte squote")
      case True
      have "quoteLoop (utf8 (r # rs)) (b, h) = quoteLoop (utf8 rs) (WriteString b [squote, squote], h)"
        using quoteLoop_step [OF ne dec] dr True nb by simp
      then show ?thesis using Cons.IH [OF vs] True nb
        by (simp add: utf8_append utf8_doubled WriteString_def)
    next
      case False
      have "quoteLoop (utf8 (r # rs)) (b, h) = quoteLoop (utf8 rs) (WriteRune b r, h)"
        using quoteLoop_step [OF ne dec] dr False nb by simp
      then show ?thesis using Cons.IH [OF vs] False nb
        by (simp add: utf8_append utf8_doubled WriteRune_def)
    qed
  qed
qed

subsection \<open>A lead byte above 0x7F never decodes to an ASCII rune\<close>

lemma lead2_ge: "194 \<le> x \<Longrightarrow> x < 224 \<Longrightarrow> 2 \<le> x mod 32" for x :: nat
  using mod_between' [of 32 6 2 x] by simp

lemma lead3_ge: "225 \<le> x \<Longrightarrow> x < 240 \<Longrightarrow> 1 \<le> x mod 16" for x :: nat
  using mod_between' [of 16 14 1 x] by simp

lemma lead4_ge: "241 \<le> x \<Longrightarrow> x < 248 \<Longrightarrow> 1 \<le> x mod 8" for x :: nat
  using mod_between' [of 8 30 1 x] by simp

lemma cont_ge32: "160 \<le> y \<Longrightarrow> y < 192 \<Longrightarrow> 32 \<le> y mod 64" for y :: nat
  using mod_between' [of 64 2 32 y] by simp

lemma cont_ge16: "144 \<le> y \<Longrightarrow> y < 192 \<Longrightarrow> 16 \<le> y mod 64" for y :: nat
  using mod_between' [of 64 2 16 y] by simp

lemma Decode_high:
  assumes "0x80 \<le> byte c"
  shows "0x80 \<le> fst (DecodeRuneInString (c # cs))"
proof -
  consider (bad) "byte c < 0xC2 \<or> 0xF4 < byte c"
    | (b2) "0xC2 \<le> byte c" "byte c < 0xE0"
    | (b3a) "byte c = 0xE0"
    | (b3b) "0xE0 < byte c" "byte c < 0xF0"
    | (b4a) "byte c = 0xF0"
    | (b4b) "0xF0 < byte c" "byte c \<le> 0xF4"
    by atomize_elim arith
  then show ?thesis
  proof cases
    case bad
    then show ?thesis using assms
      by (simp add: DecodeRuneInString_def Let_def RuneError_def)
  next
    case b2
    have "2 \<le> byte c mod 32" using b2 by (simp add: lead2_ge)
    then have "128 \<le> byte c mod 32 * 64 + k" for k by simp
    then show ?thesis using b2
      by (simp add: DecodeRuneInString_def Let_def RuneError_def)
  next
    case b3a
    have "128 \<le> y mod 64 * 64 + k" if "\<not> y < 160" "\<not> 191 < y" for y k :: nat
      using cont_ge32 [of y] that by simp
    then show ?thesis using b3a
      by (simp add: DecodeRuneInString_def Let_def RuneError_def)
  next
    case b3b
    have "1 \<le> byte c mod 16" using b3b lead3_ge [of "byte c"] by simp
    then have "128 \<le> byte c mod 16 * 4096 + j + k" for j k by simp
    then show ?thesis using b3b
      by (simp add: DecodeRuneInString_def Let_def RuneError_def)
  next
    case b4a
    have "128 \<le> y mod 64 * 4096 + j + k" if "\<not> y < 144" "\<not> 191 < y" for y j k :: nat
      using cont_ge16 [of y] that by simp
    then show ?thesis using b4a
      by (simp add: DecodeRuneInString_def Let_def RuneError_def)
  next
    case b4b
    have "1 \<le> byte c mod 8" using b4b lead4_ge [of "byte c"] by simp
    then have "128 \<le> byte c mod 8 * 262144 + i + j + k" for i j k by simp
    then show ?thesis using b4b
      by (simp add: DecodeRuneInString_def Let_def RuneError_def)
  qed
qed


subsection \<open>Name characters\<close>

lemma isNotWordChar_high: "0x80 \<le> r \<Longrightarrow> isNotWordChar r"
  by (simp add: isNotWordChar_def byte_def)

lemma isWordByte_ascii: "isWordByte c \<Longrightarrow> byte c < 0x80"
  by (simp add: isWordByte_def isNotWordChar_def) (auto simp: byte_def)

lemma Decode_word:
  assumes "isWordByte c"
  shows "DecodeRuneInString (c # cs) = (byte c, 1)"
  using assms by (simp add: Decode1 isWordByte_ascii)

lemma Decode_not_word:
  assumes "\<not> isWordByte c"
  shows "isNotWordChar (fst (DecodeRuneInString (c # cs)))"
proof (cases "byte c < 0x80")
  case True
  then show ?thesis using assms by (simp add: Decode1 isWordByte_def)
next
  case False
  then have "0x80 \<le> fst (DecodeRuneInString (c # cs))" by (simp add: Decode_high)
  then show ?thesis by (rule isNotWordChar_high)
qed

lemma IndexFunc_Nil: "IndexFunc [] f = None"
  by (simp add: IndexFunc.simps)

lemma IndexFunc_word:
  assumes "isWordByte c"
  shows "IndexFunc (c # cs) isNotWordChar = map_option Suc (IndexFunc cs isNotWordChar)"
proof -
  have "\<not> isNotWordChar (byte c)" using assms by (simp add: isWordByte_def)
  then show ?thesis
    by (rule_tac trans [OF IndexFunc.simps]) (simp add: Decode_word [OF assms])
qed

lemma IndexFunc_not_word:
  assumes "\<not> isWordByte c"
  shows "IndexFunc (c # cs) isNotWordChar = Some 0"
  using Decode_not_word [OF assms, of cs]
  by (rule_tac trans [OF IndexFunc.simps]) (simp add: case_prod_beta)

lemma IndexFunc_isNotWordChar:
  "IndexFunc s isNotWordChar =
    (if \<forall>c\<in>set s. isWordByte c then None else Some (length (takeWhile isWordByte s)))"
proof (induction s)
  case Nil
  then show ?case by (simp add: IndexFunc_Nil)
next
  case (Cons c cs)
  then show ?case
    by (cases "isWordByte c") (simp_all add: IndexFunc_word IndexFunc_not_word)
qed

lemma take_takeWhile: "take (length (takeWhile P s)) s = takeWhile P s"
  by (induction s) simp_all

lemma drop_takeWhile: "drop (length (takeWhile P s)) s = dropWhile P s"
  by (induction s) simp_all

lemma takeWhile_all: "\<forall>c\<in>set s. P c \<Longrightarrow> takeWhile P s = s"
  by (induction s) simp_all

lemma dropWhile_all: "\<forall>c\<in>set s. P c \<Longrightarrow> dropWhile P s = []"
  by (induction s) simp_all

subsection \<open>The first colon\<close>

lemma IndexRune_colon: "IndexRune s (byte colon) = IndexByte s colon"
  by (simp add: IndexRune_def chr_byte) (simp add: byte_def colon_def)

lemma IndexByte_None: "IndexByte s c = None \<longleftrightarrow> c \<notin> set s"
  by (induction s) auto

lemma IndexByte_prefix: "c \<notin> set pre \<Longrightarrow> IndexByte (pre @ c # rest) c = Some (length pre)"
  by (induction pre) auto

lemma IndexByte_SomeE:
  assumes "IndexByte s c = Some i"
  obtains pre rest where "s = pre @ c # rest" "c \<notin> set pre" "i = length pre"
proof -
  have "c \<in> set s" using assms IndexByte_None [of s c] by auto
  then obtain pre rest where s: "s = pre @ c # rest" "c \<notin> set pre"
    by (meson split_list_first)
  then have "i = length pre" using assms IndexByte_prefix [of c pre rest] by simp
  with s show ?thesis using that by blast
qed


subsection \<open>One round of the loop\<close>

lemma qprintf_loop_no_colon:
  assumes "colon \<notin> set s"
  shows "qprintf_loop params result s = Inr (result @ s)"
  using assms
  by (rule_tac trans [OF qprintf_loop.simps])
    (simp add: IndexRune_colon IndexByte_None [THEN iffD2] WriteString_def)

lemma qprintf_loop_last_colon:
  assumes "colon \<notin> set pre"
  shows "qprintf_loop params result (pre @ [colon]) = Inr (result @ pre @ [colon])"
  using assms
  by (rule_tac trans [OF qprintf_loop.simps])
    (simp add: IndexRune_colon IndexByte_prefix WriteString_def)

lemma qprintf_loop_skip:
  assumes "colon \<notin> set pre" "\<not> isWordByte d"
  shows "qprintf_loop params result (pre @ colon # d # ds) =
    qprintf_loop params (result @ pre @ [colon, d]) ds"
  using assms
  by (rule_tac trans [OF qprintf_loop.simps])
    (simp add: IndexRune_colon IndexByte_prefix WriteString_def isWordByte_def nth_append)

lemma qprintf_loop_unfold_param:
  assumes "IndexRune s (byte colon) = Some idx" "idx \<noteq> length s - 1"
    and "\<not> isNotWordChar (byte (s ! (idx + 1)))"
    and "s1 = drop (idx + 1) s" "idxEnd = IndexFunc s1 isNotWordChar"
    and "param = (case idxEnd of None \<Rightarrow> s1 | Some e \<Rightarrow> take e s1)"
  shows "qprintf_loop params result s =
    (case params param of
       None \<Rightarrow> Inl (ParameterMissing param)
     | Some v \<Rightarrow>
         (case toDbValue v of
            Inl err \<Rightarrow> Inl err
          | Inr t \<Rightarrow>
              (case idxEnd of
                 None \<Rightarrow> Inr (result @ take idx s @ t)
               | Some e \<Rightarrow> qprintf_loop params (result @ take idx s @ t) (drop e s1))))"
  using assms
  by (rule_tac trans [OF qprintf_loop.simps])
    (simp add: WriteString_def Let_def split: option.split sum.split)

lemma qprintf_loop_param:
  assumes "colon \<notin> set pre" "isWordByte d"
  shows "qprintf_loop params result (pre @ colon # d # ds) =
    (case params (takeWhile isWordByte (d # ds)) of
       None \<Rightarrow> Inl (ParameterMissing (takeWhile isWordByte (d # ds)))
     | Some v \<Rightarrow>
         (case toDbValue v of
            Inl err \<Rightarrow> Inl err
          | Inr t \<Rightarrow>
              if \<forall>c\<in>set ds. isWordByte c then Inr (result @ pre @ t)
              else qprintf_loop params (result @ pre @ t) (dropWhile isWordByte (d # ds))))"
proof -
  define s where "s = pre @ colon # d # ds"
  define s1 where "s1 = d # ds"
  define name where "name = takeWhile isWordByte s1"
  define idxEnd where "idxEnd = IndexFunc s1 isNotWordChar"
  have idx: "IndexRune s (byte colon) = Some (length pre)"
    unfolding s_def using assms(1) by (simp add: IndexRune_colon IndexByte_prefix)
  have nl: "length pre \<noteq> length s - 1" unfolding s_def by simp
  have w: "\<not> isNotWordChar (byte (s ! (length pre + 1)))"
    unfolding s_def using assms(2) by (simp add: isWordByte_def nth_append)
  have dr: "drop (length pre + 1) s = s1" unfolding s_def s1_def by simp
  have tk: "take (length pre) s = pre" unfolding s_def by simp
  have all: "(\<forall>c\<in>set s1. isWordByte c) = (\<forall>c\<in>set ds. isWordByte c)"
    unfolding s1_def using assms(2) by simp
  have e: "idxEnd = (if \<forall>c\<in>set ds. isWordByte c then None else Some (length name))"
    unfolding idxEnd_def name_def IndexFunc_isNotWordChar all ..
  have p: "(case idxEnd of None \<Rightarrow> s1 | Some e \<Rightarrow> take e s1) = name"
    unfolding e name_def using all by (simp add: takeWhile_all take_takeWhile)
  have d: "drop (length name) s1 = dropWhile isWordByte s1"
    unfolding name_def by (rule drop_takeWhile)
  have "qprintf_loop params result s =
    (case params name of
       None \<Rightarrow> Inl (ParameterMissing name)
     | Some v \<Rightarrow>
         (case toDbValue v of
            Inl err \<Rightarrow> Inl err
          | Inr t \<Rightarrow>
              (case idxEnd of
                 None \<Rightarrow> Inr (result @ take (length pre) s @ t)
               | Some e \<Rightarrow> qprintf_loop params (result @ take (length pre) s @ t) (drop e s1))))"
    using idx nl w dr [symmetric] idxEnd_def p [symmetric] by (rule qprintf_loop_unfold_param)
  also have "\<dots> =
    (case params name of
       None \<Rightarrow> Inl (ParameterMissing name)
     | Some v \<Rightarrow>
         (case toDbValue v of
            Inl err \<Rightarrow> Inl err
          | Inr t \<Rightarrow>
              if \<forall>c\<in>set ds. isWordByte c then Inr (result @ pre @ t)
              else qprintf_loop params (result @ pre @ t) (dropWhile isWordByte s1)))"
    unfolding tk e by (simp add: d split: option.split sum.split)
  finally show ?thesis unfolding s_def name_def s1_def .
qed

subsection \<open>The loop computes the substitution of the specification\<close>

lemma spec_tokens_no_colon: "colon \<notin> set s \<Longrightarrow> spec_tokens s = map (\<lambda>c. Lit [c]) s"
  by (induction s rule: spec_tokens.induct) auto

lemma spec_tokens_prefix:
  "colon \<notin> set pre \<Longrightarrow> rest \<noteq> [] \<Longrightarrow>
    spec_tokens (pre @ rest) = map (\<lambda>c. Lit [c]) pre @ spec_tokens rest"
proof (induction pre)
  case Nil
  then show ?case by simp
next
  case (Cons c pre)
  then obtain x xs where "pre @ rest = x # xs" by (cases "pre @ rest") auto
  then show ?case using Cons by auto
qed

lemma spec_render_lits:
  "spec_render params (map (\<lambda>c. Lit [c]) pre @ segs) =
    (case spec_render params segs of Inl err \<Rightarrow> Inl err | Inr out \<Rightarrow> Inr (pre @ out))"
  by (induction pre) (auto split: sum.split)

lemma spec_render_lits_only: "spec_render params (map (\<lambda>c. Lit [c]) s) = Inr s"
  using spec_render_lits [of params s "[]"] by simp

lemma spec_tokens_colon_end: "spec_tokens [colon] = [Lit [colon]]"
  by simp

lemma spec_tokens_colon_skip:
  "\<not> isWordByte d \<Longrightarrow> spec_tokens (colon # d # ds) = Lit [colon] # Lit [d] # spec_tokens ds"
  by simp

lemma spec_tokens_colon_param:
  "isWordByte d \<Longrightarrow> spec_tokens (colon # d # ds) =
    Param (takeWhile isWordByte (d # ds)) # spec_tokens (dropWhile isWordByte (d # ds))"
  by simp

lemma qprintf_loop_spec:
  "qprintf_loop params result s =
    (case spec_render params (spec_tokens s) of
       Inl err \<Rightarrow> Inl err
     | Inr out \<Rightarrow> Inr (result @ out))"
proof (induction s arbitrary: result rule: length_induct)
  case (1 s)
  note IH = 1 [rule_format]
  show ?case
  proof (cases "colon \<in> set s")
    case False
    then show ?thesis
      by (simp add: qprintf_loop_no_colon spec_tokens_no_colon spec_render_lits_only)
  next
    case True
    then obtain pre rest where s: "s = pre @ colon # rest" "colon \<notin> set pre"
      by (meson split_list_first)
    show ?thesis
    proof (cases rest)
      case Nil
      have "spec_tokens s = map (\<lambda>c. Lit [c]) pre @ [Lit [colon]]"
        unfolding s(1) Nil using s(2) by (simp add: spec_tokens_prefix)
      then show ?thesis
        using s Nil by (simp add: qprintf_loop_last_colon spec_render_lits)
    next
      case (Cons d ds)
      have tok: "spec_tokens s = map (\<lambda>c. Lit [c]) pre @ spec_tokens (colon # d # ds)"
        unfolding s(1) Cons using s(2) by (simp add: spec_tokens_prefix)
      show ?thesis
      proof (cases "isWordByte d")
        case False
        have "length ds < length s" unfolding s(1) Cons by simp
        then have rec: "qprintf_loop params (result @ pre @ [colon, d]) ds =
          (case spec_render params (spec_tokens ds) of
             Inl err \<Rightarrow> Inl err
           | Inr out \<Rightarrow> Inr ((result @ pre @ [colon, d]) @ out))"
          by (rule IH)
        have step: "qprintf_loop params result s =
            qprintf_loop params (result @ pre @ [colon, d]) ds"
          unfolding s(1) Cons using s(2) False by (rule qprintf_loop_skip)
        have tok': "spec_tokens s = map (\<lambda>c. Lit [c]) pre @ Lit [colon] # Lit [d] # spec_tokens ds"
          unfolding tok spec_tokens_colon_skip [OF False] ..
        show ?thesis
          unfolding step rec tok' spec_render_lits
          by (simp split: sum.split)
      next
        case True
        define name where "name = takeWhile isWordByte (d # ds)"
        define rest' where "rest' = dropWhile isWordByte (d # ds)"
        have len: "length rest' < length s"
          unfolding s(1) Cons rest'_def
          using length_dropWhile_le [of isWordByte "d # ds"] by simp
        have step: "qprintf_loop params result s =
          (case params name of
             None \<Rightarrow> Inl (ParameterMissing name)
           | Some v \<Rightarrow>
               (case toDbValue v of
                  Inl err \<Rightarrow> Inl err
                | Inr t \<Rightarrow>
                    if \<forall>c\<in>set ds. isWordByte c then Inr (result @ pre @ t)
                    else qprintf_loop params (result @ pre @ t) rest'))"
          unfolding s(1) Cons name_def rest'_def
          using s(2) True by (rule qprintf_loop_param)
        have tok': "spec_tokens s = map (\<lambda>c. Lit [c]) pre @ Param name # spec_tokens rest'"
          unfolding tok name_def rest'_def spec_tokens_colon_param [OF True] ..
        have empty: "rest' = []" if "\<forall>c\<in>set ds. isWordByte c"
          unfolding rest'_def using that True by (simp add: dropWhile_all)
        have rec: "qprintf_loop params (result @ pre @ t) rest' =
          (case spec_render params (spec_tokens rest') of
             Inl err \<Rightarrow> Inl err
           | Inr out \<Rightarrow> Inr ((result @ pre @ t) @ out))" for t
          using len by (rule IH)
        show ?thesis
          unfolding step tok' spec_render_lits
          using empty rec
          by (auto split: option.split sum.split)
      qed
    qed
  qed
qed

lemma qprintf_spec: "qprintf sql params = spec_render params (spec_tokens sql)"
  unfolding qprintf_def qprintf_loop_spec by (simp split: sum.split)

subsection \<open>Evaluation on ASCII text\<close>

lemma chr_digits:
  "chr 48 = CHR ''0''" "chr 49 = CHR ''1''" "chr 50 = CHR ''2''" "chr 51 = CHR ''3''"
  "chr 52 = CHR ''4''" "chr 53 = CHR ''5''" "chr 54 = CHR ''6''" "chr 55 = CHR ''7''"
  "chr 56 = CHR ''8''" "chr 57 = CHR ''9''"
  unfolding chr_def by code_simp+

lemma digits_small: "n < 10 \<Longrightarrow> digits n = [chr (48 + n)]"
  by (simp add: digits.simps)

lemma Itoa_digit:
  "Itoa 0 = ''0''" "Itoa 1 = ''1''" "Itoa 2 = ''2''" "Itoa 3 = ''3''" "Itoa 4 = ''4''"
  "Itoa 5 = ''5''" "Itoa 6 = ''6''" "Itoa 7 = ''7''" "Itoa 8 = ''8''" "Itoa 9 = ''9''"
  by (simp_all add: Itoa_def digits_small chr_digits)

lemma utf8_map_byte: "\<forall>c\<in>set s. byte c < 0x80 \<Longrightarrow> utf8 (map byte s) = s"
  by (induction s) (simp_all add: utf8_def EncodeRune_byte)

lemma ValidRune_ascii: "r < 0x80 \<Longrightarrow> ValidRune r"
  by (simp add: ValidRune_def)

lemma byte_eq_iff: "byte a = byte b \<longleftrightarrow> a = b"
  by (metis chr_byte)

lemma utf8_doubled_byte: "byte c < 0x80 \<Longrightarrow> utf8 (doubled (byte c)) = doubled_byte c"
  by (simp add: doubled_def doubled_byte_def utf8_def EncodeRune_byte byte_eq_iff)

lemma utf8_Nil: "utf8 [] = []"
  by (simp add: utf8_def)

lemma utf8_concat_doubled:
  "\<forall>c\<in>set s. byte c < 0x80 \<Longrightarrow>
    utf8 (concat (map (doubled \<circ> byte) s)) = concat (map doubled_byte s)"
  by (induction s) (simp_all add: utf8_Nil utf8_append utf8_doubled_byte)

lemma quoteLiteral_ascii:
  assumes "\<forall>c\<in>set s. byte c < 0x80"
  shows "quoteLiteral s =
    (if bslash \<in> set s then ''E'' else []) @ [squote] @ concat (map doubled_byte s) @ [squote]"
proof -
  have v: "\<forall>r\<in>set (map byte s). ValidRune r" using assms by (auto intro: ValidRune_ascii)
  have b0: "WriteRune (WriteRune [] (byte (CHR ''E''))) (byte squote) = ''E'' @ [squote]"
    using EncodeRune_byte [of "CHR ''E''"] EncodeRune_byte [of squote]
    by (simp add: WriteRune_def byte_squote EncodeRune_squote) (simp add: byte_def)
  have q: "WriteRune b (byte squote) = b @ [squote]" for b
    by (simp add: WriteRune_def EncodeRune_squote byte_squote)
  have loop: "quoteLoop s (b, h) = (b @ concat (map doubled_byte s), h \<or> bslash \<in> set s)" for b h
    using quoteLoop_utf8 [OF v, of b h] assms
    by (simp add: utf8_map_byte utf8_concat_doubled byte_eq_iff image_iff)
  show ?thesis
    unfolding quoteLiteral_def b0 Let_def loop by (simp add: q)
qed


lemmas eval_chars = byte_def colon_def squote_def bslash_def isWordByte_def isNotWordChar_def

lemma quoteLiteral_plain:
  assumes "\<forall>c\<in>set s. byte c < 0x80 \<and> c \<noteq> squote \<and> c \<noteq> bslash"
  shows "quoteLiteral s = quoted s"
proof -
  have "concat (map doubled_byte s) = s"
    using assms by (induction s) (simp_all add: doubled_byte_def)
  moreover have "bslash \<notin> set s" using assms by auto
  ultimately show ?thesis using assms by (simp add: quoteLiteral_ascii quoted_def)
qed

subsection \<open>Segments of a template\<close>

lemma concat_seg_source: "concat (map seg_source (spec_tokens s)) = s"
  by (induction s rule: spec_tokens.induct) simp_all

lemma spec_tokens_names:
  "Param name \<in> set (spec_tokens s) \<Longrightarrow> name \<noteq> [] \<and> (\<forall>c\<in>set name. isWordByte c)"
proof (induction s rule: spec_tokens.induct)
  case 1
  then show ?case by simp
next
  case (2 c)
  then show ?case by simp
next
  case (3 c d ds)
  show ?case
  proof (cases "c \<noteq> colon")
    case True
    then have "Param name \<in> set (spec_tokens (d # ds))" using "3.prems" by simp
    then show ?thesis using "3.IH"(1) True by blast
  next
    case False
    note c = False
    show ?thesis
    proof (cases "isWordByte d")
      case False
      then have "Param name \<in> set (spec_tokens ds)" using "3.prems" c by simp
      then show ?thesis using "3.IH"(2) c False by blast
    next
      case True
      have tok: "spec_tokens (c # d # ds) =
          Param (takeWhile isWordByte (d # ds)) # spec_tokens (dropWhile isWordByte (d # ds))"
        using c True spec_tokens_colon_param [of d ds] by simp
      from "3.prems" [unfolded tok]
      consider "name = takeWhile isWordByte (d # ds)"
        | "Param name \<in> set (spec_tokens (dropWhile isWordByte (d # ds)))"
        by auto
      then show ?thesis
      proof cases
        case 1
        have "name \<noteq> []" unfolding 1 using True by simp
        moreover have "\<forall>c\<in>set name. isWordByte c"
          unfolding 1 using set_takeWhileD by metis
        ultimately show ?thesis by blast
      next
        case 2
        then show ?thesis using "3.IH"(3) c True by blast
      qed
    qed
  qed
qed

lemma spec_render_output:
  "spec_render params segs = Inr out \<Longrightarrow>
    out = concat (map (seg_output params) segs)
    \<and> (\<forall>name. Param name \<in> set segs \<longrightarrow> (\<exists>v t. params name = Some v \<and> toDbValue v = Inr t))"
proof (induction segs arbitrary: out)
  case Nil
  then show ?case by simp
next
  case (Cons seg segs)
  then show ?case
    by (cases seg) (auto split: sum.splits option.splits)
qed

lemma spec_render_no_params:
  "\<forall>seg\<in>set segs. \<exists>l. seg = Lit l \<Longrightarrow>
    spec_render params segs = Inr (concat (map seg_source segs))"
  by (induction segs) auto

lemma spec_render_missing:
  "Param name \<in> set segs \<Longrightarrow> params name = None \<Longrightarrow> \<exists>err. spec_render params segs = Inl err"
proof (induction segs)
  case Nil
  then show ?case by simp
next
  case (Cons seg segs)
  then show ?case
    by (cases seg) (auto split: sum.splits option.splits)
qed

lemma spec_render_first_unencodable:
  assumes "params name = Some v" and "toDbValue v = Inl err"
    and "\<forall>n. Param n \<in> set pre \<longrightarrow> (\<exists>v t. params n = Some v \<and> toDbValue v = Inr t)"
  shows "spec_render params (pre @ Param name # post) = Inl err"
  using assms(3)
proof (induction pre)
  case Nil
  then show ?case using assms(1,2) by simp
next
  case (Cons seg pre)
  then show ?case
    by (cases seg) (auto split: sum.splits option.splits)
qed

lemma spec_render_first_missing:
  assumes "params name = None"
    and "\<forall>n. Param n \<in> set pre \<longrightarrow> (\<exists>v t. params n = Some v \<and> toDbValue v = Inr t)"
  shows "spec_render params (pre @ Param name # post) = Inl (ParameterMissing name)"
  using assms(2)
proof (induction pre)
  case Nil
  then show ?case using assms(1) by simp
next
  case (Cons seg pre)
  then show ?case
    by (cases seg) (auto split: sum.splits option.splits)
qed

lemma spec_render_cong:
  "\<forall>name. Param name \<in> set segs \<longrightarrow> params name = params' name \<Longrightarrow>
    spec_render params segs = spec_render params' segs"
proof (induction segs)
  case Nil
  then show ?case by simp
next
  case (Cons seg segs)
  then show ?case by (cases seg) (auto split: option.splits sum.splits)
qed

lemma spec_tokens_name_run:
  assumes "name \<noteq> []" "\<forall>c\<in>set name. isWordByte c" "rest = [] \<or> \<not> isWordByte (hd rest)"
  shows "spec_tokens (colon # name @ rest) = Param name # spec_tokens rest"
proof -
  obtain d ds where n: "name = d # ds" using assms(1) by (cases name) auto
  have t: "takeWhile isWordByte (name @ rest) = name"
    using assms(2,3) by (cases rest) (simp_all add: takeWhile_append2 takeWhile_all)
  have dr: "dropWhile isWordByte (name @ rest) = rest"
    using assms(2,3) by (cases rest) (simp_all add: dropWhile_append2 dropWhile_all)
  have "isWordByte d" using assms(2) n by simp
  then have "spec_tokens (colon # d # (ds @ rest)) =
      Param (takeWhile isWordByte (d # ds @ rest)) # spec_tokens (dropWhile isWordByte (d # ds @ rest))"
    by (rule spec_tokens_colon_param)
  then show ?thesis using t dr unfolding n by simp
qed

subsection \<open>Templates without three colons in a row\<close>

lemma has_triple_colon_Cons: "has_triple_colon s \<Longrightarrow> has_triple_colon (x # s)"
  by (induction s rule: has_triple_colon.induct) auto

lemma has_triple_colon_drop: "has_triple_colon (drop n s) \<Longrightarrow> has_triple_colon s"
proof (induction s arbitrary: n)
  case Nil
  then show ?case by simp
next
  case (Cons x s)
  then show ?case by (cases n) (auto intro: has_triple_colon_Cons)
qed

lemma has_triple_colon_dropWhile: "has_triple_colon (dropWhile P s) \<Longrightarrow> has_triple_colon s"
  using has_triple_colon_drop [of "length (takeWhile P s)" s] by (simp add: drop_takeWhile)

lemma claimed_tokens_prev:
  "s = [] \<or> hd s \<noteq> colon \<Longrightarrow> claimed_tokens True s = claimed_tokens False s"
  by (cases s) auto

lemma claimed_tokens_spec:
  "\<not> has_triple_colon s \<Longrightarrow> claimed_tokens False s = spec_tokens s"
proof (induction s rule: spec_tokens.induct)
  case 1
  then show ?case by simp
next
  case (2 c)
  then show ?case by simp
next
  case (3 c d ds)
  show ?case
  proof (cases "c = colon")
    case False
    have "\<not> has_triple_colon (d # ds)" using "3.prems" has_triple_colon_Cons by blast
    then show ?thesis using False "3.IH"(1) by simp
  next
    case True
    note c = True
    show ?thesis
    proof (cases "isWordByte d")
      case True
      have "\<not> has_triple_colon (dropWhile isWordByte (d # ds))"
        using "3.prems" has_triple_colon_dropWhile has_triple_colon_Cons by blast
      then have "claimed_tokens False (dropWhile isWordByte (d # ds)) =
          spec_tokens (dropWhile isWordByte (d # ds))"
        using "3.IH"(3) c True by simp
      then show ?thesis using c True by simp
    next
      case False
      have nt: "\<not> has_triple_colon ds"
        using "3.prems" has_triple_colon_Cons by blast
      then have ih: "claimed_tokens False ds = spec_tokens ds" using "3.IH"(2) c False by simp
      have "claimed_tokens (d = colon) ds = claimed_tokens False ds"
      proof (cases "d = colon")
        case True
        have "ds = [] \<or> hd ds \<noteq> colon" using "3.prems" c True by (cases ds) auto
        then show ?thesis using True by (simp add: claimed_tokens_prev)
      next
        case False
        then show ?thesis by simp
      qed
      then show ?thesis using c False ih by simp
    qed
  qed
qed

subsection \<open>The encoder on lists\<close>

lemma toDbValues_all:
  "\<forall>v\<in>set vs. \<exists>t. toDbValue v = Inr t \<Longrightarrow>
    toDbValues vs = Inr (map (\<lambda>v. projr (toDbValue v)) vs)"
  by (induction vs) auto

subsection \<open>The runner on the database\<close>

lemma qprintf_update:
  "qprintf ''UPDATE migrations SET version = :latest'' [''latest'' \<mapsto> IntVal n]
    = Inr (update_prefix @ Itoa n)"
  by (simp add: qprintf_spec eval_chars update_prefix_def)

lemma Contains_relation_missing: "Contains (Error_text relation_missing) ''migrations''"
  by (simp add: relation_missing_def Contains_def quote_mark_def)

lemma getLatestVersion_memdb:
  "getLatestVersion (memdb rejects) db =
    (case catalog db of None \<Rightarrow> Inr 0 | Some [] \<Rightarrow> Inr 0 | Some (v # _) \<Rightarrow> Inr v)"
  using Contains_relation_missing
  by (simp add: getLatestVersion_def memdb_def db_query_row_def Row_Scan_def
      split: option.split list.split)

lemma db_exec_body:
  "migration_body rejects sql \<Longrightarrow>
    db_exec rejects sql db = (Inr 0, db\<lparr>executed := executed db @ [sql]\<rparr>)"
  by (simp add: migration_body_def db_exec_def)


lemma db_exec_initial:
  "\<not> rejects InitialMigration \<Longrightarrow> catalog db = None \<Longrightarrow>
    db_exec rejects InitialMigration db =
      (Inr 1, db\<lparr>catalog := Some [1], executed := executed db @ [InitialMigration]\<rparr>)"
  by (simp add: db_exec_def)

lemma InitialMigration_not_update: "update_prefix @ s \<noteq> InitialMigration"
  by (simp add: update_prefix_def InitialMigration_def)

lemma parse_int_5: "parse_int ''5'' = Some 5"
  by (simp add: parse_int_def is_number_def parse_nat_def byte_def)

lemma db_exec_update_5:
  "\<not> rejects (update_prefix @ ''5'') \<Longrightarrow> catalog db = Some [v] \<Longrightarrow>
    db_exec rejects (update_prefix @ ''5'') db = (Inr 1, db\<lparr>catalog := Some [5]\<rparr>)"
  using InitialMigration_not_update [of "''5''"]
  by (simp add: db_exec_def parse_int_5)

lemma tx_exec:
  "ExecContext (Tx (memdb rejects)) sql tx =
    (fst (db_exec rejects sql (current tx)), tx\<lparr>current := snd (db_exec rejects sql (current tx))\<rparr>)"
  by (simp add: memdb_def tx_queryable_def split: prod.split)





lemma migrate_loop_skip:
  "\<forall>mig\<in>set migrations. Version mig \<le> latest \<Longrightarrow>
    migrate_loop m migrations (latest, None, tx) = (latest, None, tx)"
  by (induction migrations) auto


lemma Run_memdb_commit:
  assumes "getLatestVersion (memdb rejects) db = Inr latest0"
    and "migrate_loop (memdb rejects) migrations (latest0, None, \<lparr>snapshot = db, current = db\<rparr>)
      = (latest, None, tx)"
    and "db_exec rejects (update_prefix @ Itoa latest) (current tx) = (Inr n, db')"
  shows "Run (memdb rejects) db migrations = (None, db')"
proof -
  have b: "Begin (memdb rejects) db = Inr \<lparr>snapshot = db, current = db\<rparr>"
    by (simp add: memdb_def)
  have x: "Exec (Tx (memdb rejects)) tx ''UPDATE migrations SET version = :latest''
      [''latest'' \<mapsto> IntVal latest] = (Inr n, tx\<lparr>current := db'\<rparr>)"
    using assms(3) by (simp add: Exec_def qprintf_update tx_exec)
  have c: "snd (Commit (memdb rejects) (tx\<lparr>current := db'\<rparr>)) = db'"
    by (simp add: memdb_def)
  show ?thesis
    unfolding Run_def using assms(1,2) b x c by simp
qed

subsection \<open>The scan loop\<close>

lemma scan_rows_scanned:
  "scan_rows sql params (map Inr pre @ rows) v = scan_rows sql params rows (v @ pre)"
  by (induction pre arbitrary: v) simp_all

lemma scan_rows_error:
  "scan_rows sql params (map Inr pre @ Inl err # rest) v = Inl (wrapError err sql params)"
  by (simp add: scan_rows_scanned)

section \<open>The claims\<close>

subsection \<open>C1: the literal quoter\<close>

text \<open>
  Claim C1. For every Unicode string, given by its code points \<open>rs\<close> (each one a valid
  code point) and held in UTF-8 as Go strings are, \<open>quoteLiteral\<close> returns the UTF-8 text
  of the code points of \<open>rs\<close> with every single quote and every backslash doubled, between
  two single quotes, and prefixed with \<open>E\<close> exactly when \<open>rs\<close> contains a backslash. No
  multi-byte character is touched: the result is stated on code points.
\<close>

theorem quoteLiteral_doubles_and_marks:
  assumes "\<forall>r\<in>set rs. ValidRune r"
  shows "quoteLiteral (utf8 rs) =
    (if byte bslash \<in> set rs then ''E'' else []) @ [squote] @ utf8 (concat (map doubled rs)) @ [squote]"
proof -
  have b0: "WriteRune (WriteRune [] (byte (CHR ''E''))) (byte squote) = ''E'' @ [squote]"
    using EncodeRune_byte [of "CHR ''E''"] EncodeRune_byte [of squote]
    by (simp add: WriteRune_def byte_squote EncodeRune_squote) (simp add: byte_def)
  have q: "WriteRune b (byte squote) = b @ [squote]" for b
    by (simp add: WriteRune_def EncodeRune_squote byte_squote)
  show ?thesis
    unfolding quoteLiteral_def b0 Let_def quoteLoop_utf8 [OF assms] by (simp add: q)
qed

theorem quoteLiteral_doubles_and_marks_witness:
  "quoteLiteral (utf8 [97, 39, 92, 233, 8364, 128512]) =
     ''E'' @ [squote] @ utf8 [97, 39, 39, 92, 92, 233, 8364, 128512] @ [squote]
   \<and> quoteLiteral (utf8 [97, 39, 233]) = [squote] @ utf8 [97, 39, 39, 233] @ [squote]"
  using quoteLiteral_doubles_and_marks [of "[97, 39, 92, 233, 8364, 128512]"]
    quoteLiteral_doubles_and_marks [of "[97, 39, 233]"]
  by (simp add: ValidRune_def MaxRune_def doubled_def byte_bslash byte_squote)

subsection \<open>C2: what the scanner takes for a placeholder\<close>

text \<open>
  Claim C2, as stated, fails on the code: in \<open>:::a\<close> the third colon stands in a
  double-colon sequence (it directly follows a colon), so under the claim nothing is a
  placeholder and the template is returned as it is; \<open>qprintf\<close> copies the first two
  colons as a pair and substitutes \<open>:a\<close>.
\<close>

theorem qprintf_triple_colon_counterexample:
  "qprintf '':::a'' [''a'' \<mapsto> IntVal 1] = Inr ''::1''
   \<and> spec_render [''a'' \<mapsto> IntVal 1] (claimed_tokens False '':::a'') = Inr '':::a''"
  by (simp add: qprintf_spec eval_chars Itoa_digit)

text \<open>
  Claim C2, amended. The scanner works from left to right: a colon followed by a name
  character starts a placeholder, whose name is the maximal run of name characters; a
  colon followed by any other character is copied together with that character and
  scanning goes on after it, so the second colon of a pair never starts a placeholder,
  but a colon right after such a pair does; a colon at the end is copied
  (\<open>spec_tokens\<close>). For every template without three colons in a row this is the
  claim's reading: a placeholder starts at each colon that is followed by a name
  character and not preceded by a colon. The two examples of the claim hold.
\<close>

theorem qprintf_placeholders_left_to_right:
  "qprintf sql params = spec_render params (spec_tokens sql)
   \<and> (\<not> has_triple_colon sql \<longrightarrow>
        qprintf sql params = spec_render params (claimed_tokens False sql))
   \<and> qprintf (quoted ''1'' @ ''::int'') [''int'' \<mapsto> IntVal 1] = Inr (quoted ''1'' @ ''::int'')
   \<and> qprintf '':a, :a_b, :a b''
         [''a'' \<mapsto> StringVal ''value_a'', ''a_b'' \<mapsto> StringVal ''value_b'']
       = Inr (quoted ''value_a'' @ '', '' @ quoted ''value_b'' @ '', '' @ quoted ''value_a'' @ '' b'')"
proof -
  have 1: "qprintf sql params = spec_render params (spec_tokens sql)"
    by (rule qprintf_spec)
  have 2: "qprintf sql params = spec_render params (claimed_tokens False sql)"
    if "\<not> has_triple_colon sql"
    using that by (simp add: qprintf_spec claimed_tokens_spec)
  have 3: "qprintf (quoted ''1'' @ ''::int'') [''int'' \<mapsto> IntVal 1] = Inr (quoted ''1'' @ ''::int'')"
    by (simp add: qprintf_spec quoted_def eval_chars)
  have q: "quoteLiteral ''value_a'' = quoted ''value_a''" "quoteLiteral ''value_b'' = quoted ''value_b''"
    by (rule quoteLiteral_plain, simp add: eval_chars)+
  have 4: "qprintf '':a, :a_b, :a b''
         [''a'' \<mapsto> StringVal ''value_a'', ''a_b'' \<mapsto> StringVal ''value_b'']
       = Inr (quoted ''value_a'' @ '', '' @ quoted ''value_b'' @ '', '' @ quoted ''value_a'' @ '' b'')"
    by (simp add: qprintf_spec q eval_chars)
  show ?thesis using 1 2 3 4 by blast
qed

theorem qprintf_placeholders_left_to_right_witness:
  "\<not> has_triple_colon '':id::int, ::a''
   \<and> qprintf '':id::int, ::a'' [''id'' \<mapsto> IntVal 7] = Inr ''7::int, ::a''
   \<and> spec_render [''id'' \<mapsto> IntVal 7] (claimed_tokens False '':id::int, ::a'') = Inr ''7::int, ::a''"
  using qprintf_placeholders_left_to_right [of "'':id::int, ::a''" "[''id'' \<mapsto> IntVal 7]"]
  by (simp add: eval_chars Itoa_digit)

subsection \<open>C3: text outside the placeholders is copied\<close>

text \<open>
  Claim C3, as stated, fails on the code. The template \<open>:::a\<close> contains no placeholder
  in the claim's sense: its only colon before a name character directly follows a
  colon. Yet the substitution does not return it unchanged: without parameters it fails
  for want of \<open>a\<close>, and with \<open>a\<close> bound to 1 it returns \<open>::1\<close>.
\<close>

theorem qprintf_identity_counterexample:
  "claimed_tokens False '':::a'' = [Lit '':'', Lit '':'', Lit '':'', Lit ''a'']
   \<and> qprintf '':::a'' Map.empty = Inl (ParameterMissing ''a'')
   \<and> qprintf '':::a'' [''a'' \<mapsto> IntVal 1] = Inr ''::1''"
  by (simp add: qprintf_spec eval_chars Itoa_digit)

text \<open>
  Claim C3, amended. The template is the concatenation of its segments (copied text and
  the placeholders \<open>:name\<close> the scanner recognises, \<open>spec_tokens\<close>). When the substitution
  succeeds, the output is the concatenation of the same segments in the same order, with
  every piece of copied text unchanged and every placeholder replaced by the encoding of
  its parameter, which then is present and encodes. A template in which the scanner
  recognises no placeholder is returned unchanged. In a template without three colons
  in a row the scanner recognises exactly the placeholders of the claim (each colon that
  is followed by a name character and not preceded by a colon); so every template
  without three colons in a row and without such a placeholder is returned unchanged.
\<close>

theorem qprintf_copies_text_outside_placeholders:
  "concat (map seg_source (spec_tokens sql)) = sql
   \<and> (qprintf sql params = Inr out \<longrightarrow>
        out = concat (map (seg_output params) (spec_tokens sql))
        \<and> (\<forall>name. Param name \<in> set (spec_tokens sql) \<longrightarrow>
              (\<exists>v t. params name = Some v \<and> toDbValue v = Inr t)))
   \<and> ((\<forall>seg\<in>set (spec_tokens sql). \<exists>l. seg = Lit l) \<longrightarrow> qprintf sql params = Inr sql)
   \<and> (\<not> has_triple_colon sql \<longrightarrow> spec_tokens sql = claimed_tokens False sql)
   \<and> (\<not> has_triple_colon sql \<and> (\<forall>seg\<in>set (claimed_tokens False sql). \<exists>l. seg = Lit l) \<longrightarrow>
        qprintf sql params = Inr sql)"
proof (intro conjI impI)
  show "concat (map seg_source (spec_tokens sql)) = sql" by (rule concat_seg_source)
next
  assume "qprintf sql params = Inr out"
  then have r: "spec_render params (spec_tokens sql) = Inr out" by (simp add: qprintf_spec)
  from spec_render_output [OF r]
  show "out = concat (map (seg_output params) (spec_tokens sql))"
    and "\<forall>name. Param name \<in> set (spec_tokens sql) \<longrightarrow>
              (\<exists>v t. params name = Some v \<and> toDbValue v = Inr t)"
    by blast+
next
  assume "\<forall>seg\<in>set (spec_tokens sql). \<exists>l. seg = Lit l"
  then show "qprintf sql params = Inr sql"
    by (simp add: qprintf_spec spec_render_no_params concat_seg_source)
next
  assume "\<not> has_triple_colon sql"
  then show "spec_tokens sql = claimed_tokens False sql" by (simp add: claimed_tokens_spec)
next
  assume a: "\<not> has_triple_colon sql \<and> (\<forall>seg\<in>set (claimed_tokens False sql). \<exists>l. seg = Lit l)"
  then have "\<forall>seg\<in>set (spec_tokens sql). \<exists>l. seg = Lit l" by (simp add: claimed_tokens_spec)
  then show "qprintf sql params = Inr sql"
    by (simp add: qprintf_spec spec_render_no_params concat_seg_source)
qed

theorem qprintf_copies_text_outside_placeholders_witness:
  "qprintf ''a = :x AND b::int > 0'' [''x'' \<mapsto> IntVal 5] = Inr ''a = 5 AND b::int > 0''
   \<and> concat (map (seg_output [''x'' \<mapsto> IntVal 5]) (spec_tokens ''a = :x AND b::int > 0''))
       = ''a = 5 AND b::int > 0''
   \<and> \<not> has_triple_colon ''SELECT 1::int''
   \<and> claimed_tokens False ''SELECT 1::int'' = map (\<lambda>c. Lit [c]) ''SELECT 1::int''
   \<and> qprintf ''SELECT 1::int'' Map.empty = Inr ''SELECT 1::int''"
  using qprintf_copies_text_outside_placeholders
    [of "''a = :x AND b::int > 0''" "[''x'' \<mapsto> IntVal 5]" "''a = 5 AND b::int > 0''"]
    qprintf_copies_text_outside_placeholders [of "''SELECT 1::int''" Map.empty "[]"]
  by (simp add: qprintf_spec eval_chars Itoa_digit)

subsection \<open>C4: a placeholder without a parameter\<close>

text \<open>
  Claim C4, as stated, fails on the code: the template \<open>:a, :b\<close> contains the placeholder
  \<open>b\<close>, which is not a key of the mapping, but the substitution fails with the error of
  the encoder for \<open>a\<close>, a value that \<^verbatim>\<open>json.Marshal\<close> rejects, and not with a
  parameter-missing error.
\<close>

theorem qprintf_missing_parameter_counterexample:
  "Param ''b'' \<in> set (spec_tokens '':a, :b'')
   \<and> [''a'' \<mapsto> OtherVal (Unmarshalable ''json: unsupported type: chan int'')] ''b'' = None
   \<and> qprintf '':a, :b'' [''a'' \<mapsto> OtherVal (Unmarshalable ''json: unsupported type: chan int'')]
       = Inl (MarshalError ''json: unsupported type: chan int'')"
  by (simp add: qprintf_spec eval_chars)

text \<open>
  Claim C4, amended. For every template with a placeholder whose name is not a key of
  the mapping, the substitution fails and returns no text. The error is that of the
  first placeholder, from the left, that is missing or whose value does not encode:
  when every placeholder before it is present and encodes, a placeholder that is missing
  gives the parameter-missing error that names it, and a placeholder whose value does
  not encode gives the error of the encoder.
\<close>

theorem qprintf_missing_parameter:
  assumes "spec_tokens sql = pre @ Param name # post" and "params name = None"
  shows "(\<exists>err. qprintf sql params = Inl err)
    \<and> ((\<forall>n. Param n \<in> set pre \<longrightarrow> (\<exists>v t. params n = Some v \<and> toDbValue v = Inr t)) \<longrightarrow>
         qprintf sql params = Inl (ParameterMissing name))
    \<and> (spec_tokens sql = pre' @ Param name' # post'
         \<and> (\<forall>n. Param n \<in> set pre' \<longrightarrow> (\<exists>v t. params n = Some v \<and> toDbValue v = Inr t))
         \<and> params name' = Some v' \<and> toDbValue v' = Inl err' \<longrightarrow>
         qprintf sql params = Inl err')
    \<and> Error_text (ParameterMissing name) = ''parameter '' @ name @ '' is missing''"
proof (intro conjI impI)
  have "Param name \<in> set (spec_tokens sql)" using assms(1) by simp
  then show "\<exists>err. qprintf sql params = Inl err"
    unfolding qprintf_spec using assms(2) by (rule spec_render_missing)
next
  assume "\<forall>n. Param n \<in> set pre \<longrightarrow> (\<exists>v t. params n = Some v \<and> toDbValue v = Inr t)"
  then show "qprintf sql params = Inl (ParameterMissing name)"
    unfolding qprintf_spec assms(1) using assms(2) spec_render_first_missing by blast
next
  assume a: "spec_tokens sql = pre' @ Param name' # post'
         \<and> (\<forall>n. Param n \<in> set pre' \<longrightarrow> (\<exists>v t. params n = Some v \<and> toDbValue v = Inr t))
         \<and> params name' = Some v' \<and> toDbValue v' = Inl err'"
  then have "spec_render params (pre' @ Param name' # post') = Inl err'"
    by (intro spec_render_first_unencodable [of params name' v' err' pre' post']) simp_all
  then show "qprintf sql params = Inl err'"
    using a by (simp add: qprintf_spec)
next
  show "Error_text (ParameterMissing name) = ''parameter '' @ name @ '' is missing''" by simp
qed

theorem qprintf_missing_parameter_witness:
  "spec_tokens '':a, :b'' = [Param ''a'', Lit '','', Lit '' ''] @ Param ''b'' # []
   \<and> qprintf '':a, :b'' [''a'' \<mapsto> IntVal 1] = Inl (ParameterMissing ''b'')
   \<and> Error_text (ParameterMissing ''b'') = ''parameter b is missing''
   \<and> spec_tokens '':x, :a, :b''
       = [Param ''x'', Lit '','', Lit '' ''] @ Param ''a'' # [Lit '','', Lit '' '', Param ''b'']
   \<and> qprintf '':x, :a, :b''
         [''x'' \<mapsto> IntVal 1, ''a'' \<mapsto> OtherVal (Unmarshalable ''json: unsupported type: chan int'')]
       = Inl (MarshalError ''json: unsupported type: chan int'')
   \<and> qprintf '':x, :a, :b''
         [''a'' \<mapsto> OtherVal (Unmarshalable ''json: unsupported type: chan int'')]
       = Inl (ParameterMissing ''x'')"
proof -
  let ?bad = "OtherVal (Unmarshalable ''json: unsupported type: chan int'')"
  have t: "spec_tokens '':a, :b'' = [Param ''a'', Lit '','', Lit '' ''] @ Param ''b'' # []"
    by (simp add: eval_chars)
  have n: "[''a'' \<mapsto> IntVal 1] ''b'' = None" by simp
  have 1: "qprintf '':a, :b'' [''a'' \<mapsto> IntVal 1] = Inl (ParameterMissing ''b'')
      \<and> Error_text (ParameterMissing ''b'') = ''parameter b is missing''"
    using qprintf_missing_parameter
      [of "'':a, :b''" "[Param ''a'', Lit '','', Lit '' '']" "''b''" "[]" "[''a'' \<mapsto> IntVal 1]"] t n
    by (simp add: Itoa_digit)
  have t3: "spec_tokens '':x, :a, :b''
       = [Param ''x'', Lit '','', Lit '' ''] @ Param ''a'' # [Lit '','', Lit '' '', Param ''b'']"
    by (simp add: eval_chars)
  have t3': "spec_tokens '':x, :a, :b''
       = [Param ''x'', Lit '','', Lit '' '', Param ''a'', Lit '','', Lit '' ''] @ Param ''b'' # []"
    by (simp add: eval_chars)
  have t3'': "spec_tokens '':x, :a, :b''
       = [] @ Param ''x'' # [Lit '','', Lit '' '', Param ''a'', Lit '','', Lit '' '', Param ''b'']"
    by (simp add: eval_chars)
  have 2: "qprintf '':x, :a, :b'' [''x'' \<mapsto> IntVal 1, ''a'' \<mapsto> ?bad]
       = Inl (MarshalError ''json: unsupported type: chan int'')"
    using qprintf_missing_parameter
      [where sql = "'':x, :a, :b''"
        and pre = "[Param ''x'', Lit '','', Lit '' '', Param ''a'', Lit '','', Lit '' '']"
        and name = "''b''" and post = "[]"
        and params = "[''x'' \<mapsto> IntVal 1, ''a'' \<mapsto> ?bad]"
        and pre' = "[Param ''x'', Lit '','', Lit '' '']" and name' = "''a''"
        and post' = "[Lit '','', Lit '' '', Param ''b'']"
        and v' = ?bad and err' = "MarshalError ''json: unsupported type: chan int''"]
      t3 t3'
    by (simp add: Itoa_digit)
  have 3: "qprintf '':x, :a, :b'' [''a'' \<mapsto> ?bad] = Inl (ParameterMissing ''x'')"
    using qprintf_missing_parameter
      [where sql = "'':x, :a, :b''" and pre = "[]" and name = "''x''"
        and post = "[Lit '','', Lit '' '', Param ''a'', Lit '','', Lit '' '', Param ''b'']"
        and params = "[''a'' \<mapsto> ?bad]"]
      t3''
    by simp
  show ?thesis using t 1 t3 2 3 by blast
qed

subsection \<open>C5: null values\<close>

text \<open>
  Claim C5, as stated, fails on the code: a nil \<^verbatim>\<open>CommaListParam\<close> is an uninitialized
  slice (and \<^verbatim>\<open>json.Marshal\<close> would write it as \<^verbatim>\<open>null\<close>), but the type switch takes it
  as a list with no elements and the encoder returns the empty string, not \<^verbatim>\<open>NULL\<close>.
  Likewise a nil slice of a type whose own \<^verbatim>\<open>MarshalJSON\<close> writes \<^verbatim>\<open>[]\<close> for it is
  encoded as the quoted text \<^verbatim>\<open>'[]'\<close>.
\<close>

theorem toDbValue_nil_CommaListParam_counterexample:
  "toDbValue (CommaListParam None) = Inr [] \<and> toDbValue (CommaListParam None) \<noteq> Inr ''NULL''
   \<and> toDbValue (OtherVal (NilSlice (Some (Inr ''[]'')))) = Inr (quoted ''[]'')
   \<and> quoted ''[]'' \<noteq> ''NULL''"
proof -
  have "quoteLiteral ''[]'' = quoted ''[]''"
    by (rule quoteLiteral_plain) (simp add: eval_chars)
  then show ?thesis by (simp add: quoted_def)
qed

text \<open>
  Claim C5, amended. The encoder returns exactly \<^verbatim>\<open>NULL\<close> and no error for the nil
  interface, for a nil pointer to a string, an int, a float64, a bool, a decimal or a
  timestamp, for a nil pointer to a structured value, for a nil slice whose type is not
  \<^verbatim>\<open>CommaListParam\<close> and has no \<^verbatim>\<open>MarshalJSON\<close> or \<^verbatim>\<open>MarshalText\<close> method with a value
  receiver, and for every value outside the type switch whose JSON text is \<^verbatim>\<open>null\<close>. A
  nil \<^verbatim>\<open>CommaListParam\<close> is encoded as the empty list, that is, as the empty string. A
  nil slice of a type with such a marshalling method is encoded from what that method
  returns: \<^verbatim>\<open>NULL\<close> when it is the text \<^verbatim>\<open>null\<close>, the quoted JSON text otherwise, and
  the error of the method when it fails.
\<close>

theorem toDbValue_null:
  "toDbValue NilInterface = Inr ''NULL''
   \<and> toDbValue (StringPtr None) = Inr ''NULL''
   \<and> toDbValue (IntPtr None) = Inr ''NULL''
   \<and> toDbValue (Float64Ptr None) = Inr ''NULL''
   \<and> toDbValue (BoolPtr None) = Inr ''NULL''
   \<and> toDbValue (DecimalPtr None) = Inr ''NULL''
   \<and> toDbValue (TimePtr None) = Inr ''NULL''
   \<and> toDbValue (OtherVal (NilSlice None)) = Inr ''NULL''
   \<and> toDbValue (OtherVal NilPointer) = Inr ''NULL''
   \<and> (json_Marshal x = Inr (Some ''null'') \<longrightarrow> toDbValue (OtherVal x) = Inr ''NULL'')
   \<and> toDbValue (CommaListParam None) = Inr []
   \<and> toDbValue (OtherVal (NilSlice (Some (Inr js))))
       = Inr (if js = ''null'' then ''NULL'' else quoteLiteral js)
   \<and> toDbValue (OtherVal (NilSlice (Some (Inl msg)))) = Inl (MarshalError msg)"
  by simp

theorem toDbValue_null_witness:
  "json_Marshal (Marshalable ''null'') = Inr (Some ''null'')
   \<and> toDbValue (OtherVal (Marshalable ''null'')) = Inr ''NULL''
   \<and> json_Marshal (NilSlice (Some (Inr ''null''))) = Inr (Some ''null'')
   \<and> toDbValue (OtherVal (NilSlice (Some (Inr ''null'')))) = Inr ''NULL''
   \<and> toDbValue (StringPtr None) = Inr ''NULL''"
  using toDbValue_null [of "Marshalable ''null''"]
    toDbValue_null [of "NilSlice (Some (Inr ''null''))"] by simp

subsection \<open>C6: list parameters\<close>

text \<open>
  Claim C6. A list parameter whose elements all encode is encoded as the encodings of
  its elements, each made by \<open>toDbValue\<close> itself, in order and joined with a comma and a
  space; the empty list encodes to the empty string. The example of the claim holds.
\<close>

theorem toDbValue_CommaListParam:
  "((\<forall>v\<in>set vs. \<exists>t. toDbValue v = Inr t) \<longrightarrow>
      toDbValue (CommaListParam (Some vs)) = Inr (Join (map (\<lambda>v. projr (toDbValue v)) vs) '', ''))
   \<and> toDbValue (CommaListParam (Some [])) = Inr []
   \<and> Join (a # b # ts) '', '' = a @ '', '' @ Join (b # ts) '', ''
   \<and> qprintf ''WHERE field IN (:xs)''
         [''xs'' \<mapsto> CommaListParam (Some [IntVal 1, IntVal 2, IntVal 3, NilInterface, StringVal ''as''])]
       = Inr (''WHERE field IN (1, 2, 3, NULL, '' @ quoted ''as'' @ '')'')"
proof (intro conjI impI)
  assume "\<forall>v\<in>set vs. \<exists>t. toDbValue v = Inr t"
  then show "toDbValue (CommaListParam (Some vs)) = Inr (Join (map (\<lambda>v. projr (toDbValue v)) vs) '', '')"
    by (simp add: toDbValues_all)
next
  show "toDbValue (CommaListParam (Some [])) = Inr []" by simp
next
  show "Join (a # b # ts) '', '' = a @ '', '' @ Join (b # ts) '', ''" by simp
next
  have q: "quoteLiteral ''as'' = quoted ''as''"
    by (rule quoteLiteral_plain) (simp add: eval_chars)
  show "qprintf ''WHERE field IN (:xs)''
         [''xs'' \<mapsto> CommaListParam (Some [IntVal 1, IntVal 2, IntVal 3, NilInterface, StringVal ''as''])]
       = Inr (''WHERE field IN (1, 2, 3, NULL, '' @ quoted ''as'' @ '')'')"
    by (simp add: qprintf_spec eval_chars Itoa_digit q)
qed

theorem toDbValue_CommaListParam_witness:
  "toDbValue (CommaListParam (Some [IntVal 1, NilInterface, BoolVal False])) = Inr ''1, NULL, false''"
  using toDbValue_CommaListParam [of "[IntVal 1, NilInterface, BoolVal False]"]
  by (simp add: Itoa_digit FormatBool_def)

subsection \<open>C7: errors of the executor\<close>

text \<open>
  Claim C7, as stated, fails on the code: \<open>Exec\<close> (and \<open>Query\<close>) wrap every error of the
  collaborator, \<^verbatim>\<open>sql.ErrNoRows\<close> included, so for them the no-rows error does not come
  back as the sentinel.
\<close>

theorem Exec_wraps_ErrNoRows_counterexample:
  "Exec (recorder (Inl ErrNoRows) (Inr []) (Inr (0::nat))) [] ''DELETE FROM t'' Map.empty
     = (Inl (Wrapped ErrNoRows ''DELETE FROM t'' Map.empty), [''DELETE FROM t''])
   \<and> \<not> is_ErrNoRows (Wrapped ErrNoRows ''DELETE FROM t'' Map.empty)"
  by (simp add: Exec_def recorder_def wrapError_def qprintf_spec eval_chars)


text \<open>
  Claim C7, amended. For every executor operation that renders a template (\<open>Exec\<close>,
  \<open>Query\<close>, \<open>QueryRow\<close>, \<open>QueryRowAndScan\<close>, \<open>QueryJSONRowIntoStruct\<close>,
  \<open>QueryRowIntoStruct\<close>, \<open>QueryRowsIntoSlice\<close>): when rendering the template fails, the
  collaborator is not called (its state is returned as it was, whatever the
  collaborator) and the render error is returned wrapped with the template and the
  parameters. \<open>Exec\<close> and \<open>Query\<close>, and the operations on top of \<open>Query\<close>, return every
  error of the collaborator wrapped, \<^verbatim>\<open>sql.ErrNoRows\<close> included. An error of the row scan
  in \<open>QueryRowAndScan\<close> and \<open>QueryJSONRowIntoStruct\<close> is returned wrapped unless it is
  \<^verbatim>\<open>sql.ErrNoRows\<close>, which is returned as the sentinel itself; so is the no-rows error of
  \<open>QueryRowIntoStruct\<close> on a result without rows. An error of scanning the first row in
  \<open>QueryRowIntoStruct\<close>, of scanning any row in \<open>QueryRowsIntoSlice\<close> (the first row
  that fails, after any number of rows that scan), and of decoding the JSON column in
  \<open>QueryJSONRowIntoStruct\<close> is returned wrapped. \<open>ScanJSONRowsIntoStruct\<close>, which renders
  no template, returns the error of its row scan and the error of decoding the JSON
  column as they are, not wrapped.
\<close>

theorem executor_errors:
  fixes q :: "('db, 'a) Queryable" and qj :: "('db, string) Queryable"
    and Unmarshal :: "string \<Rightarrow> error + 't"
  shows
  "(qprintf sql params = Inl err \<longrightarrow>
      Exec q db sql params = (Inl (Wrapped err sql params), db)
      \<and> Query q db sql params = (Inl (Wrapped err sql params), db)
      \<and> QueryRow q db sql params = (Inl (Wrapped err sql params), db)
      \<and> QueryRowAndScan q db sql params = (Inl (Wrapped err sql params), db)
      \<and> QueryJSONRowIntoStruct qj Unmarshal db sql params = (Inl (Wrapped err sql params), db)
      \<and> QueryRowIntoStruct q db sql params = (Inl (Wrapped err sql params), db)
      \<and> QueryRowsIntoSlice q db sql params = (Inl (Wrapped err sql params), db))
   \<and> (qprintf sql params = Inr query \<and> ExecContext q query db = (Inl err, db') \<longrightarrow>
        Exec q db sql params = (Inl (Wrapped err sql params), db'))
   \<and> (qprintf sql params = Inr query \<and> QueryContext q query db = (Inl err, db') \<longrightarrow>
        Query q db sql params = (Inl (Wrapped err sql params), db')
        \<and> QueryRowIntoStruct q db sql params = (Inl (Wrapped err sql params), db')
        \<and> QueryRowsIntoSlice q db sql params = (Inl (Wrapped err sql params), db'))
   \<and> (qprintf sql params = Inr query \<and> QueryRowContext q query db = (Inl err, db') \<longrightarrow>
        QueryRowAndScan q db sql params =
          (Inl (if is_ErrNoRows err then ErrNoRows else Wrapped err sql params), db'))
   \<and> (qprintf sql params = Inr query \<and> QueryRowContext qj query db = (Inl err, db') \<longrightarrow>
        QueryJSONRowIntoStruct qj Unmarshal db sql params =
          (Inl (if is_ErrNoRows err then ErrNoRows else Wrapped err sql params), db'))
   \<and> (qprintf sql params = Inr query \<and> QueryRowContext qj query db = (Inr data, db')
        \<and> Unmarshal data = Inl err \<longrightarrow>
        QueryJSONRowIntoStruct qj Unmarshal db sql params = (Inl (Wrapped err sql params), db'))
   \<and> (qprintf sql params = Inr query \<and> QueryContext q query db = (Inr [], db') \<longrightarrow>
        QueryRowIntoStruct q db sql params = (Inl ErrNoRows, db'))
   \<and> (qprintf sql params = Inr query \<and> QueryContext q query db = (Inr (Inl err # rows), db') \<longrightarrow>
        QueryRowIntoStruct q db sql params = (Inl (Wrapped err sql params), db'))
   \<and> (qprintf sql params = Inr query
        \<and> QueryContext q query db = (Inr (map Inr scanned @ Inl err # rows), db') \<longrightarrow>
        QueryRowsIntoSlice q db sql params = (Inl (Wrapped err sql params), db'))
   \<and> ScanJSONRowsIntoStruct Unmarshal (Inl err) = Inl err
   \<and> (Unmarshal data = Inl err \<longrightarrow> ScanJSONRowsIntoStruct Unmarshal (Inr data) = Inl err)"
proof -
  have n: "is_ErrNoRows e \<Longrightarrow> e = ErrNoRows" for e by (cases e) simp_all
  have s: "scan_rows sql params (map Inr scanned @ Inl err # rows) [] = Inl (Wrapped err sql params)"
    by (simp add: scan_rows_error wrapError_def)
  show ?thesis
    by (auto simp add: Exec_def Query_def QueryRow_def QueryRowAndScan_def
        QueryJSONRowIntoStruct_def QueryRowIntoStruct_def QueryRowsIntoSlice_def
        ScanJSONRowsIntoStruct_def Row_Scan_def wrapError_def s dest: n split: prod.splits)
qed

theorem executor_errors_witness:
  "qprintf ''SELECT :id'' Map.empty = Inl (ParameterMissing ''id'')
   \<and> Exec (recorder (Inr 1) (Inr []) (Inr (0::nat))) [] ''SELECT :id'' Map.empty
       = (Inl (Wrapped (ParameterMissing ''id'') ''SELECT :id'' Map.empty), [])
   \<and> QueryRowAndScan (recorder (Inr 1) (Inr []) (Inl ErrNoRows :: nat Row)) [] ''SELECT 1'' Map.empty
       = (Inl ErrNoRows, [''SELECT 1''])
   \<and> QueryRowAndScan (recorder (Inr 1) (Inr []) (Inl (DriverError ''bad'') :: nat Row)) []
         ''SELECT 1'' Map.empty
       = (Inl (Wrapped (DriverError ''bad'') ''SELECT 1'' Map.empty), [''SELECT 1''])
   \<and> QueryRowsIntoSlice
         (recorder (Inr 1) (Inr [Inr 4, Inr 5, Inl (DriverError ''bad''), Inr 6]) (Inr (0::nat))) []
         ''SELECT 1'' Map.empty
       = (Inl (Wrapped (DriverError ''bad'') ''SELECT 1'' Map.empty), [''SELECT 1''])"
proof -
  have r: "qprintf ''SELECT :id'' Map.empty = Inl (ParameterMissing ''id'')"
    by (simp add: qprintf_spec eval_chars)
  have s: "qprintf ''SELECT 1'' Map.empty = Inr ''SELECT 1''"
    by (simp add: qprintf_spec eval_chars)
  have 1: "Exec (recorder (Inr 1) (Inr []) (Inr (0::nat))) [] ''SELECT :id'' Map.empty
       = (Inl (Wrapped (ParameterMissing ''id'') ''SELECT :id'' Map.empty), [])"
    using r executor_errors [where sql = "''SELECT :id''" and params = Map.empty
        and err = "ParameterMissing ''id''" and db = "[]"
        and q = "recorder (Inr 1) (Inr []) (Inr (0::nat))"]
    by auto
  have 2: "QueryRowAndScan (recorder (Inr 1) (Inr []) (Inl ErrNoRows :: nat Row)) [] ''SELECT 1'' Map.empty
       = (Inl ErrNoRows, [''SELECT 1''])"
    using s executor_errors [where sql = "''SELECT 1''" and params = Map.empty
        and err = ErrNoRows and db = "[]" and query = "''SELECT 1''" and db' = "[''SELECT 1'']"
        and q = "recorder (Inr 1) (Inr []) (Inl ErrNoRows :: nat Row)"]
    by (auto simp add: recorder_def)
  have 3: "QueryRowAndScan (recorder (Inr 1) (Inr []) (Inl (DriverError ''bad'') :: nat Row)) []
         ''SELECT 1'' Map.empty
       = (Inl (Wrapped (DriverError ''bad'') ''SELECT 1'' Map.empty), [''SELECT 1''])"
    using s executor_errors [where sql = "''SELECT 1''" and params = Map.empty
        and err = "DriverError ''bad''" and db = "[]" and query = "''SELECT 1''"
        and db' = "[''SELECT 1'']"
        and q = "recorder (Inr 1) (Inr []) (Inl (DriverError ''bad'') :: nat Row)"]
    by (auto simp add: recorder_def)
  have 4: "QueryRowsIntoSlice
         (recorder (Inr 1) (Inr [Inr 4, Inr 5, Inl (DriverError ''bad''), Inr 6]) (Inr (0::nat))) []
         ''SELECT 1'' Map.empty
       = (Inl (Wrapped (DriverError ''bad'') ''SELECT 1'' Map.empty), [''SELECT 1''])"
    using s executor_errors [where sql = "''SELECT 1''" and params = Map.empty
        and err = "DriverError ''bad''" and db = "[]" and query = "''SELECT 1''"
        and db' = "[''SELECT 1'']" and scanned = "[4, 5]" and rows = "[Inr 6]"
        and q = "recorder (Inr 1) (Inr [Inr 4, Inr 5, Inl (DriverError ''bad''), Inr 6]) (Inr (0::nat))"]
    by (auto simp add: recorder_def)
  show ?thesis using r 1 2 3 4 by blast
qed

subsection \<open>C8: a run applies the pending migrations\<close>

text \<open>
  Claim C8, as stated, fails on the code: the runner does not sort. With the versions in
  the order 1, 5, 2 a run on the empty catalog succeeds and persists version 5, but the
  body of version 2 is never executed: when its turn comes the tracker is already 5.
\<close>

theorem Run_unsorted_counterexample:
  "Run (memdb (\<lambda>sql. False)) \<lparr>catalog = None, executed = []\<rparr>
     [\<lparr>Version = 1, Sql = InitialMigration\<rparr>,
      \<lparr>Version = 5, Sql = ''CREATE INDEX i ON t (c)''\<rparr>,
      \<lparr>Version = 2, Sql = ''ALTER TABLE t ADD c INT''\<rparr>]
   = (None, \<lparr>catalog = Some [5], executed = [InitialMigration, ''CREATE INDEX i ON t (c)'']\<rparr>)"
proof -
  let ?r = "\<lambda>sql::string. False"
  let ?db = "\<lparr>catalog = None, executed = []\<rparr>"
  have b: "migration_body ?r ''CREATE INDEX i ON t (c)''"
    by (simp add: migration_body_def InitialMigration_def update_prefix_def)
  have g: "getLatestVersion (memdb ?r) ?db = Inr 0" by (simp add: getLatestVersion_memdb)
  have 1: "db_exec ?r InitialMigration ?db =
      (Inr 1, \<lparr>catalog = Some [1], executed = [InitialMigration]\<rparr>)"
    by (simp add: db_exec_initial)
  have 2: "db_exec ?r ''CREATE INDEX i ON t (c)'' \<lparr>catalog = Some [1], executed = [InitialMigration]\<rparr> =
      (Inr 0, \<lparr>catalog = Some [1], executed = [InitialMigration, ''CREATE INDEX i ON t (c)'']\<rparr>)"
    by (simp add: db_exec_body [OF b])
  have l: "migrate_loop (memdb ?r)
     [\<lparr>Version = 1, Sql = InitialMigration\<rparr>,
      \<lparr>Version = 5, Sql = ''CREATE INDEX i ON t (c)''\<rparr>,
      \<lparr>Version = 2, Sql = ''ALTER TABLE t ADD c INT''\<rparr>]
     (0, None, \<lparr>snapshot = ?db, current = ?db\<rparr>)
    = (5, None, \<lparr>snapshot = ?db,
         current = \<lparr>catalog = Some [1], executed = [InitialMigration, ''CREATE INDEX i ON t (c)'']\<rparr>\<rparr>)"
    using 1 2 by (simp add: tx_exec)
  have u: "db_exec ?r (update_prefix @ Itoa 5)
      (current \<lparr>snapshot = ?db,
         current = \<lparr>catalog = Some [1], executed = [InitialMigration, ''CREATE INDEX i ON t (c)'']\<rparr>\<rparr>)
    = (Inr 1, \<lparr>catalog = Some [5], executed = [InitialMigration, ''CREATE INDEX i ON t (c)'']\<rparr>)"
    by (simp add: Itoa_digit db_exec_update_5)
  show ?thesis using g l u by (rule Run_memdb_commit)
qed

text \<open>
  Claim C8, amended. For a Migration Runner started on an empty catalog with the
  migrations of versions 1, 2 and 5 presented in ascending order of version, the first
  one creating the catalog table, the version read is 0, one Run in which no statement
  fails executes each body exactly once, in that order, and the persisted version
  afterwards, as the runner reads it, is 5; a second
  Run with the same list executes no body and leaves the persisted state unchanged. In
  any order, a migration whose version is not above the tracker is skipped, so a list
  whose versions are all at or below the tracker executes nothing.
\<close>

theorem Run_ascending_migrations:
  assumes "\<not> rejects InitialMigration" and "migration_body rejects b2"
    and "migration_body rejects b5" and "\<not> rejects (update_prefix @ ''5'')"
  shows "getLatestVersion (memdb rejects) \<lparr>catalog = None, executed = []\<rparr> = Inr 0
   \<and> getLatestVersion (memdb rejects)
        \<lparr>catalog = Some [5], executed = [InitialMigration, b2, b5]\<rparr> = Inr 5
   \<and> Run (memdb rejects) \<lparr>catalog = None, executed = []\<rparr>
      [\<lparr>Version = 1, Sql = InitialMigration\<rparr>, \<lparr>Version = 2, Sql = b2\<rparr>, \<lparr>Version = 5, Sql = b5\<rparr>]
    = (None, \<lparr>catalog = Some [5], executed = [InitialMigration, b2, b5]\<rparr>)
   \<and> Run (memdb rejects) \<lparr>catalog = Some [5], executed = [InitialMigration, b2, b5]\<rparr>
      [\<lparr>Version = 1, Sql = InitialMigration\<rparr>, \<lparr>Version = 2, Sql = b2\<rparr>, \<lparr>Version = 5, Sql = b5\<rparr>]
    = (None, \<lparr>catalog = Some [5], executed = [InitialMigration, b2, b5]\<rparr>)
   \<and> (\<not> Version mig > latest \<longrightarrow>
        migrate_loop m (mig # migrations) (latest, None, tx)
          = migrate_loop m migrations (latest, None, tx))
   \<and> ((\<forall>mig\<in>set migrations. Version mig \<le> latest) \<longrightarrow>
        migrate_loop m migrations (latest, None, tx) = (latest, None, tx))"
proof (intro conjI impI)
  let ?db = "\<lparr>catalog = None, executed = []\<rparr>"
  let ?ms = "[\<lparr>Version = 1, Sql = InitialMigration\<rparr>, \<lparr>Version = 2, Sql = b2\<rparr>, \<lparr>Version = 5, Sql = b5\<rparr>]"
  show g: "getLatestVersion (memdb rejects) ?db = Inr 0" by (simp add: getLatestVersion_memdb)
  have 1: "db_exec rejects InitialMigration ?db =
      (Inr 1, \<lparr>catalog = Some [1], executed = [InitialMigration]\<rparr>)"
    using assms(1) by (simp add: db_exec_initial)
  have 2: "db_exec rejects b2 \<lparr>catalog = Some [1], executed = [InitialMigration]\<rparr> =
      (Inr 0, \<lparr>catalog = Some [1], executed = [InitialMigration, b2]\<rparr>)"
    by (simp add: db_exec_body [OF assms(2)])
  have 3: "db_exec rejects b5 \<lparr>catalog = Some [1], executed = [InitialMigration, b2]\<rparr> =
      (Inr 0, \<lparr>catalog = Some [1], executed = [InitialMigration, b2, b5]\<rparr>)"
    by (simp add: db_exec_body [OF assms(3)])
  have l: "migrate_loop (memdb rejects) ?ms (0, None, \<lparr>snapshot = ?db, current = ?db\<rparr>)
    = (5, None, \<lparr>snapshot = ?db,
         current = \<lparr>catalog = Some [1], executed = [InitialMigration, b2, b5]\<rparr>\<rparr>)"
    using 1 2 3 by (simp add: tx_exec)
  have u: "db_exec rejects (update_prefix @ Itoa 5)
      (current \<lparr>snapshot = ?db,
         current = \<lparr>catalog = Some [1], executed = [InitialMigration, b2, b5]\<rparr>\<rparr>)
    = (Inr 1, \<lparr>catalog = Some [5], executed = [InitialMigration, b2, b5]\<rparr>)"
    using assms(4) by (simp add: Itoa_digit db_exec_update_5)
  show "Run (memdb rejects) ?db ?ms
    = (None, \<lparr>catalog = Some [5], executed = [InitialMigration, b2, b5]\<rparr>)"
    using g l u by (rule Run_memdb_commit)
  let ?db' = "\<lparr>catalog = Some [5], executed = [InitialMigration, b2, b5]\<rparr>"
  show g': "getLatestVersion (memdb rejects) ?db' = Inr 5" by (simp add: getLatestVersion_memdb)
  have l': "migrate_loop (memdb rejects) ?ms (5, None, \<lparr>snapshot = ?db', current = ?db'\<rparr>)
    = (5, None, \<lparr>snapshot = ?db', current = ?db'\<rparr>)"
    by (rule migrate_loop_skip) simp
  have u': "db_exec rejects (update_prefix @ Itoa 5) (current \<lparr>snapshot = ?db', current = ?db'\<rparr>)
    = (Inr 1, ?db')"
    using assms(4) by (simp add: Itoa_digit db_exec_update_5)
  show "Run (memdb rejects) ?db' ?ms = (None, ?db')"
    using g' l' u' by (rule Run_memdb_commit)
next
  assume "\<not> Version mig > latest"
  then show "migrate_loop m (mig # migrations) (latest, None, tx)
      = migrate_loop m migrations (latest, None, tx)"
    by simp
next
  assume "\<forall>mig\<in>set migrations. Version mig \<le> latest"
  then show "migrate_loop m migrations (latest, None, tx) = (latest, None, tx)"
    by (rule migrate_loop_skip)
qed

theorem Run_ascending_migrations_witness:
  "Run (memdb (\<lambda>sql. False)) \<lparr>catalog = None, executed = []\<rparr>
      [\<lparr>Version = 1, Sql = InitialMigration\<rparr>,
       \<lparr>Version = 2, Sql = ''ALTER TABLE t ADD c INT''\<rparr>,
       \<lparr>Version = 5, Sql = ''CREATE INDEX i ON t (c)''\<rparr>]
    = (None, \<lparr>catalog = Some [5],
         executed = [InitialMigration, ''ALTER TABLE t ADD c INT'', ''CREATE INDEX i ON t (c)'']\<rparr>)
   \<and> Run (memdb (\<lambda>sql. False))
        \<lparr>catalog = Some [5],
         executed = [InitialMigration, ''ALTER TABLE t ADD c INT'', ''CREATE INDEX i ON t (c)'']\<rparr>
      [\<lparr>Version = 1, Sql = InitialMigration\<rparr>,
       \<lparr>Version = 2, Sql = ''ALTER TABLE t ADD c INT''\<rparr>,
       \<lparr>Version = 5, Sql = ''CREATE INDEX i ON t (c)''\<rparr>]
    = (None, \<lparr>catalog = Some [5],
         executed = [InitialMigration, ''ALTER TABLE t ADD c INT'', ''CREATE INDEX i ON t (c)'']\<rparr>)"
proof -
  have b: "migration_body (\<lambda>sql. False) ''ALTER TABLE t ADD c INT''"
    "migration_body (\<lambda>sql. False) ''CREATE INDEX i ON t (c)''"
    by (simp_all add: migration_body_def InitialMigration_def update_prefix_def)
  show ?thesis
    using Run_ascending_migrations [where rejects = "\<lambda>sql. False"
        and ?b2.0 = "''ALTER TABLE t ADD c INT''" and ?b5.0 = "''CREATE INDEX i ON t (c)''"
        and migrations = "[]" and latest = 0 and m = "memdb (\<lambda>sql. False)"
        and mig = "\<lparr>Version = 1, Sql = InitialMigration\<rparr>"
        and tx = "\<lparr>snapshot = \<lparr>catalog = None, executed = []\<rparr>,
                    current = \<lparr>catalog = None, executed = []\<rparr>\<rparr>"] b
    by simp
qed

subsection \<open>C9: a migration that fails\<close>




subsection \<open>C10: digits are not name characters\<close>

text \<open>
  Claim C10. A digit is not a name character for the scanner. After a colon the name
  taken is the run of letters and underscores up to the first other character, so a
  digit ends it: the name before the digit is looked up and scanning goes on at the
  digit; \<open>:a1\<close> with a parameter \<open>a\<close> becomes the encoding of \<open>a\<close> followed by \<open>1\<close>.
  A key that contains a digit is never looked up: changing what the mapping holds for
  it changes no result.
\<close>

theorem digit_ends_placeholder_name:
  "(d \<in> set ''0123456789'' \<longrightarrow> isNotWordChar (byte d))
   \<and> (d \<in> set ''0123456789'' \<and> name \<noteq> [] \<and> (\<forall>c\<in>set name. isWordByte c) \<longrightarrow>
        qprintf (colon # name @ d # rest) params =
          (case params name of
             None \<Rightarrow> Inl (ParameterMissing name)
           | Some v \<Rightarrow>
               (case toDbValue v of
                  Inl err \<Rightarrow> Inl err
                | Inr t \<Rightarrow>
                    (case qprintf (d # rest) params of
                       Inl err \<Rightarrow> Inl err
                     | Inr out \<Rightarrow> Inr (t @ out)))))
   \<and> (params ''a'' = Some v \<and> toDbValue v = Inr t \<longrightarrow> qprintf '':a1'' params = Inr (t @ ''1''))
   \<and> (d \<in> set ''0123456789'' \<and> d \<in> set key \<longrightarrow>
        qprintf sql (params(key := x)) = qprintf sql params)"
proof (intro conjI impI)
  show nw: "isNotWordChar (byte d)" if "d \<in> set ''0123456789''"
    using that by (auto simp: eval_chars)
  {
    assume a: "d \<in> set ''0123456789'' \<and> name \<noteq> [] \<and> (\<forall>c\<in>set name. isWordByte c)"
    then have "\<not> isWordByte d" using nw by (simp add: isWordByte_def)
    then have "spec_tokens (colon # name @ d # rest) = Param name # spec_tokens (d # rest)"
      using a spec_tokens_name_run [of name "d # rest"] by simp
    then show "qprintf (colon # name @ d # rest) params =
          (case params name of
             None \<Rightarrow> Inl (ParameterMissing name)
           | Some v \<Rightarrow>
               (case toDbValue v of
                  Inl err \<Rightarrow> Inl err
                | Inr t \<Rightarrow>
                    (case qprintf (d # rest) params of
                       Inl err \<Rightarrow> Inl err
                     | Inr out \<Rightarrow> Inr (t @ out))))"
      by (simp add: qprintf_spec split: option.split sum.split)
  }
  {
    assume "params ''a'' = Some v \<and> toDbValue v = Inr t"
    then show "qprintf '':a1'' params = Inr (t @ ''1'')"
      by (simp add: qprintf_spec eval_chars)
  }
  {
    assume a: "d \<in> set ''0123456789'' \<and> d \<in> set key"
    then have "\<not> isWordByte d" using nw by (simp add: isWordByte_def)
    then have "\<not> (\<forall>c\<in>set key. isWordByte c)" using a by blast
    then have "\<forall>n. Param n \<in> set (spec_tokens sql) \<longrightarrow> n \<noteq> key"
      using spec_tokens_names by blast
    then have "\<forall>n. Param n \<in> set (spec_tokens sql) \<longrightarrow> (params(key := x)) n = params n"
      by simp
    then show "qprintf sql (params(key := x)) = qprintf sql params"
      unfolding qprintf_spec by (rule spec_render_cong)
  }
qed

theorem digit_ends_placeholder_name_witness:
  "isNotWordChar (byte (CHR ''1''))
   \<and> qprintf '':ab1 + :c2d'' [''ab'' \<mapsto> IntVal 4, ''c'' \<mapsto> BoolVal True] = Inr ''41 + true2d''
   \<and> qprintf '':a1'' [''a'' \<mapsto> IntVal 7] = Inr ''71''
   \<and> qprintf '':a1'' [''a'' \<mapsto> IntVal 7, ''a1'' \<mapsto> IntVal 9] = qprintf '':a1'' [''a'' \<mapsto> IntVal 7]"
proof -
  note w = digit_ends_placeholder_name
    [of "CHR ''1''" "''ab''" "'' + :c2d''" "[''ab'' \<mapsto> IntVal 4, ''c'' \<mapsto> BoolVal True]"
      "IntVal 7" "''7''" "''a1''" "'':a1''" "Some (IntVal 9)"]
  note w' = digit_ends_placeholder_name
    [of "CHR ''1''" "''ab''" "'' + :c2d''" "[''a'' \<mapsto> IntVal 7]"
      "IntVal 7" "''7''" "''a1''" "'':a1''" "Some (IntVal 9)"]
  have 1: "isNotWordChar (byte (CHR ''1''))" using w by simp
  have 2: "qprintf '':ab1 + :c2d'' [''ab'' \<mapsto> IntVal 4, ''c'' \<mapsto> BoolVal True] = Inr ''41 + true2d''"
    using w by (simp add: eval_chars Itoa_digit FormatBool_def qprintf_spec)
  have 3: "qprintf '':a1'' [''a'' \<mapsto> IntVal 7] = Inr ''71''"
    using w' by (simp add: Itoa_digit)
  have 4: "qprintf '':a1'' [''a'' \<mapsto> IntVal 7, ''a1'' \<mapsto> IntVal 9] = qprintf '':a1'' [''a'' \<mapsto> IntVal 7]"
    using w' by simp
  show ?thesis using 1 2 3 4 by blast
qed

end
